theory Spec2Isabelle
  imports Complex_Main "HOL-Library.AList" "HOL-Library.Multiset"
begin

section \<open>Data model (types/index.ts)\<close>

text \<open>
  JavaScript numbers are modelled as mathematical reals: no rounding, no infinities and
  no NaN. Every comparison and arithmetic operation of the source is kept as written.

  Record fields are global constants in HOL, so the fields of \<open>ReferencePoint\<close> and of
  \<open>SimilarityBreakdown\<close> that share a name with a field of \<open>NormalizedAnomaly\<close> carry the
  prefix \<open>ref_\<close> or \<open>sim_\<close>. The field \<open>length\<close> of an anomaly is \<open>length_in\<close> (inches) and
  \<open>id\<close> is \<open>anomaly_id\<close>, because \<open>length\<close> and \<open>id\<close> are constants of HOL.
\<close>

datatype FeatureType =
    external_metal_loss | internal_metal_loss | metal_loss | dent | crack | gouge
  | lamination | manufacturing_defect | girth_weld | seam_weld | valve | fitting
  | casing | unknown

text \<open>
  A number printed by \<open>x.toFixed(f)\<close>: the sign that is printed and the rounded digits,
  read as one integer (for numbers below 10^21, which \<open>toFixed\<close> prints in full). \<open>toFixed\<close> prints a minus sign for every \<open>x < 0\<close>, also when
  all digits are zero, and rounds the absolute value half up.
\<close>

type_synonym fixed = "bool \<times> int"

definition toFixed :: "real \<Rightarrow> nat \<Rightarrow> fixed" where
  "toFixed x f = (x < 0, \<lfloor>\<bar>x\<bar> * 10 ^ f + 1 / 2\<rfloor>)"

text \<open>
  The strings pushed to \<open>cleaning_flags\<close>. The three template strings carry the number
  that the source formats into them.
\<close>

datatype cleaning_flag =
    distance_converted_m_to_ft
  | dimensions_converted_mm_to_in
  | wt_converted_mm_to_in
  | depth_clamped_low
  | depth_clamped_high
  | wt_clamped_low
  | wt_clamped_high
  | length_clamped
  | width_clamped
  | distance_interpolated
  | odometer_from_distance
  | distance_backward_jump fixed
  | distance_major_backward_jump fixed
  | wt_cross_run_deviation fixed
  | zero_dimensions

text \<open>
  \<open>anomaly_id\<close> is the pair behind the string \<open>run<runIndex>-<idx>\<close>. The display-only
  fields (\<open>feature_id\<close>, \<open>relative_position\<close>, \<open>clock_display\<close>, the raw \<open>feature_type\<close>
  string, \<open>weld_type\<close>, \<open>latitude\<close>, \<open>longitude\<close>) are read by no function modelled here
  and are left out.
\<close>

record NormalizedAnomaly =
  anomaly_id :: "nat \<times> nat"
  distance :: real
  odometer :: real
  corrected_distance :: real
  joint_number :: real
  clock_degrees :: real
  canonical_type :: FeatureType
  depth_percent :: real
  length_in :: real
  width :: real
  wall_thickness :: real
  run_index :: nat
  is_reference_point :: bool
  has_missing_data :: bool
  cleaning_flags :: "cleaning_flag list"

record ReferencePoint =
  ref_id :: "nat \<times> nat"
  ref_distance :: real
  ref_odometer :: real
  ref_joint_number :: real
  ref_feature_type :: FeatureType
  ref_run_index :: nat

record MatchedReference =
  run1 :: ReferencePoint
  run2 :: ReferencePoint
  distance_offset :: real
  odometer_drift :: real

record AlignmentZone =
  start_ref :: MatchedReference
  end_ref :: MatchedReference
  correction_factor :: real
  is_pipe_replacement :: bool

section \<open>Distance correction (lib/alignment/distanceCorrection.ts)\<close>

text \<open>
  \<open>Array.prototype.sort\<close> with the comparator \<open>a.k - b.k\<close> is a stable ascending sort by
  the key \<open>k\<close>; \<open>sort_key\<close> is the stable insertion sort of HOL.
\<close>

text \<open>The body of the loop of \<open>createAlignmentZones\<close>: the zone between two pairs.\<close>

definition make_zone :: "MatchedReference \<Rightarrow> MatchedReference \<Rightarrow> AlignmentZone" where
  "make_zone startRef endRef =
     (let run1Span = ref_distance (run1 endRef) - ref_distance (run1 startRef);
          run2Span = ref_distance (run2 endRef) - ref_distance (run2 startRef);
          spanRatio = (if run1Span > 0 then run2Span / run1Span else 1);
          isPipeReplacement = (\<bar>spanRatio - 1\<bar> > 0.2)
      in \<lparr> start_ref = startRef, end_ref = endRef,
           correction_factor = (if run1Span > 0 then run2Span / run1Span else 1),
           is_pipe_replacement = isPipeReplacement \<rparr>)"

definition createAlignmentZones :: "MatchedReference list \<Rightarrow> AlignmentZone list" where
  "createAlignmentZones matchedRefs =
     (if length matchedRefs < 2 then []
      else
        let sorted = sort_key (\<lambda>m. ref_distance (run1 m)) matchedRefs
        in map (\<lambda>i. make_zone (sorted ! i) (sorted ! (i + 1))) [0..<length sorted - 1])"

text \<open>The predicate of \<open>zones.find\<close>: the raw distance lies in the zone's interval of run 2.\<close>

definition zone_contains :: "real \<Rightarrow> AlignmentZone \<Rightarrow> bool" where
  "zone_contains raw z \<longleftrightarrow>
     raw \<ge> ref_distance (run2 (start_ref z)) \<and> raw \<le> ref_distance (run2 (end_ref z))"

text \<open>The branch \<open>if (zone)\<close>: piecewise linear interpolation within the zone.\<close>

definition zone_interpolate :: "AlignmentZone \<Rightarrow> real \<Rightarrow> real" where
  "zone_interpolate zone raw =
     (let run2Start = ref_distance (run2 (start_ref zone));
          run2End = ref_distance (run2 (end_ref zone));
          run1Start = ref_distance (run1 (start_ref zone));
          run1End = ref_distance (run1 (end_ref zone));
          run2Span = run2End - run2Start
      in if run2Span > 0
         then (let fraction = (raw - run2Start) / run2Span
               in run1Start + fraction * (run1End - run1Start))
         else run1Start)"

text \<open>The value \<open>corrected\<close> that the callback of \<open>anomalies.map\<close> computes for one raw distance.\<close>

definition corrected_value ::
  "AlignmentZone list \<Rightarrow> MatchedReference \<Rightarrow> MatchedReference \<Rightarrow> real \<Rightarrow> real" where
  "corrected_value zones firstRef lastRef raw =
     (case find (zone_contains raw) zones of
        Some zone \<Rightarrow> zone_interpolate zone raw
      | None \<Rightarrow>
          if raw < ref_distance (run2 firstRef)
          then raw + (ref_distance (run1 firstRef) - ref_distance (run2 firstRef))
          else if raw > ref_distance (run2 lastRef)
          then raw + (ref_distance (run1 lastRef) - ref_distance (run2 lastRef))
          else raw)"

text \<open>
  With fewer than two matched pairs (or no zone) the run is returned as it is. Otherwise
  \<open>sortedRefs\<close> has at least two elements, so \<open>sortedRefs[0]\<close> and the last element exist.
\<close>

definition applyDistanceCorrection ::
  "NormalizedAnomaly list \<Rightarrow> AlignmentZone list \<Rightarrow> MatchedReference list
     \<Rightarrow> NormalizedAnomaly list" where
  "applyDistanceCorrection anomalies zones matchedRefs =
     (if length zones = 0 \<or> length matchedRefs < 2 then anomalies
      else
        let sortedRefs = sort_key (\<lambda>m. ref_distance (run2 m)) matchedRefs;
            firstRef = hd sortedRefs;
            lastRef = last sortedRefs
        in map (\<lambda>anomaly.
                  anomaly\<lparr> corrected_distance :=
                    corrected_value zones firstRef lastRef (distance anomaly) \<rparr>)
               anomalies)"

section \<open>Similarity (lib/matching/similarity.ts)\<close>

record SimilarityBreakdown =
  sim_distance :: real
  sim_dimensional :: real
  sim_clock :: real
  sim_feature_type :: real
  sim_total :: real

definition WEIGHTS_distance :: real where "WEIGHTS_distance = 0.40"
definition WEIGHTS_dimensional :: real where "WEIGHTS_dimensional = 0.30"
definition WEIGHTS_clock :: real where "WEIGHTS_clock = 0.20"
definition WEIGHTS_feature_type :: real where "WEIGHTS_feature_type = 0.10"

definition DISTANCE_TOLERANCE :: real where "DISTANCE_TOLERANCE = 50"

definition distanceSimilarity :: "real \<Rightarrow> real \<Rightarrow> real" where
  "distanceSimilarity d1 d2 = (let diff = \<bar>d1 - d2\<bar> in exp (- diff / DISTANCE_TOLERANCE))"

definition dimensionalSimilarity :: "NormalizedAnomaly \<Rightarrow> NormalizedAnomaly \<Rightarrow> real" where
  "dimensionalSimilarity a1 a2 =
     (let dot = depth_percent a1 * depth_percent a2 + length_in a1 * length_in a2
                + width a1 * width a2;
          mag1 = sqrt ((depth_percent a1)\<^sup>2 + (length_in a1)\<^sup>2 + (width a1)\<^sup>2);
          mag2 = sqrt ((depth_percent a2)\<^sup>2 + (length_in a2)\<^sup>2 + (width a2)\<^sup>2)
      in if mag1 < 1 / 10 ^ 10 \<or> mag2 < 1 / 10 ^ 10 then 0
         else max 0 (dot / (mag1 * mag2)))"

definition clockSimilarity :: "real \<Rightarrow> real \<Rightarrow> real" where
  "clockSimilarity deg1 deg2 =
     (let diff = \<bar>deg1 - deg2\<bar>;
          circularDiff = min diff (360 - diff)
      in 1 - circularDiff / 180)"

definition compatible :: "(FeatureType \<times> FeatureType) list" where
  "compatible =
     [(external_metal_loss, metal_loss),
      (internal_metal_loss, metal_loss),
      (external_metal_loss, internal_metal_loss),
      (crack, gouge),
      (girth_weld, seam_weld)]"

definition featureTypeSimilarity :: "FeatureType \<Rightarrow> FeatureType \<Rightarrow> real" where
  "featureTypeSimilarity t1 t2 =
     (if t1 = t2 then 1.0
      else if list_ex (\<lambda>(a, b). (t1 = a \<and> t2 = b) \<or> (t1 = b \<and> t2 = a)) compatible then 0.5
      else 0.0)"

definition calculateSimilarity ::
  "NormalizedAnomaly \<Rightarrow> NormalizedAnomaly \<Rightarrow> SimilarityBreakdown" where
  "calculateSimilarity a1 a2 =
     (let distSim = distanceSimilarity (corrected_distance a1) (corrected_distance a2);
          dimSim = dimensionalSimilarity a1 a2;
          clockSim = clockSimilarity (clock_degrees a1) (clock_degrees a2);
          typeSim = featureTypeSimilarity (canonical_type a1) (canonical_type a2);
          total = WEIGHTS_distance * distSim + WEIGHTS_dimensional * dimSim
                  + WEIGHTS_clock * clockSim + WEIGHTS_feature_type * typeSim
      in \<lparr> sim_distance = distSim, sim_dimensional = dimSim, sim_clock = clockSim,
           sim_feature_type = typeSim, sim_total = total \<rparr>)"

section \<open>Growth analysis (lib/analysis/growthRate.ts)\<close>

text \<open>
  The growth analysis is the one place of the model with a NaN: \<open>years[runIndices[i]]\<close>
  is \<open>undefined\<close> when the \<open>years\<close> array is shorter than the runs, every sum of the
  regression is NaN then, and so are the three slopes. A comparison with NaN is false.
\<close>

datatype number = Num real | NaN

definition num_abs :: "number \<Rightarrow> number" where
  "num_abs x = (case x of Num r \<Rightarrow> Num \<bar>r\<bar> | NaN \<Rightarrow> NaN)"

definition num_ge :: "number \<Rightarrow> real \<Rightarrow> bool" where
  "num_ge x c = (case x of Num r \<Rightarrow> r \<ge> c | NaN \<Rightarrow> False)"

definition num_gt :: "number \<Rightarrow> real \<Rightarrow> bool" where
  "num_gt x c = (case x of Num r \<Rightarrow> r > c | NaN \<Rightarrow> False)"

text \<open>
  The fields \<open>depth_trend\<close> and \<open>predicted_depth_at_year\<close> feed the charts only and are
  left out.
\<close>

record GrowthRates =
  depth_growth_rate :: number
  length_growth_rate :: number
  width_growth_rate :: number
  time_to_critical :: "real option"

text \<open>
  \<open>linearRegression\<close> returns the pair (slope, intercept). Its one caller passes two
  arrays of the same length, so \<open>y[i]\<close> is defined for every index of \<open>x\<close>; \<open>y[0] || 0\<close> is
  \<open>y[0]\<close> or, for no or a zero \<open>y[0]\<close>, zero.
\<close>

definition linearRegression :: "real list \<Rightarrow> real list \<Rightarrow> real \<times> real" where
  "linearRegression x y =
     (let n = length x in
      if n < 2 then (0, case y of [] \<Rightarrow> 0 | y0 # _ \<Rightarrow> y0)
      else
        let sumX = sum_list x;
            sumY = sum_list y;
            sumXY = sum_list (map (\<lambda>(xi, yi). xi * yi) (zip x y));
            sumX2 = sum_list (map (\<lambda>xi. xi * xi) x);
            denom = real n * sumX2 - sumX * sumX
        in if \<bar>denom\<bar> < 1 / 10 ^ 10 then (0, sumY / real n)
           else
             let slope = (real n * sumXY - sumX * sumY) / denom;
                 intercept = (sumY - slope * sumX) / real n
             in (slope, intercept))"

definition year_at :: "real list \<Rightarrow> nat \<Rightarrow> real option" where
  "year_at years k = (if k < length years then Some (years ! k) else None)"

text \<open>
  \<open>calculateGrowthRates\<close> on the objects of a chain. Every caller passes as many run
  indices as anomalies. The three series share their years; with a year missing the
  slopes are NaN and \<open>depthGrowthRate > 0\<close> is false.
\<close>

definition calculateGrowthRates ::
  "NormalizedAnomaly list \<Rightarrow> nat list \<Rightarrow> real list \<Rightarrow> GrowthRates" where
  "calculateGrowthRates anoms runIndices years =
     (if length anoms < 2 then
        \<lparr> depth_growth_rate = Num 0, length_growth_rate = Num 0, width_growth_rate = Num 0,
          time_to_critical = None \<rparr>
      else
        let currentDepth = depth_percent (last anoms) in
        case those (map (year_at years) (take (length anoms) runIndices)) of
          None \<Rightarrow>
            \<lparr> depth_growth_rate = NaN, length_growth_rate = NaN, width_growth_rate = NaN,
              time_to_critical = (if currentDepth \<ge> 80 then Some 0 else None) \<rparr>
        | Some xs \<Rightarrow>
            let depthGrowthRate = fst (linearRegression xs (map depth_percent anoms));
                lengthGrowthRate = fst (linearRegression xs (map length_in anoms));
                widthGrowthRate = fst (linearRegression xs (map width anoms))
            in \<lparr> depth_growth_rate = Num depthGrowthRate,
                 length_growth_rate = Num lengthGrowthRate,
                 width_growth_rate = Num widthGrowthRate,
                 time_to_critical =
                   (if depthGrowthRate > 0 \<and> currentDepth < 80
                    then Some ((80 - currentDepth) / depthGrowthRate)
                    else if currentDepth \<ge> 80 then Some 0
                    else None) \<rparr>)"

section \<open>Priority classification (lib/analysis/priority.ts)\<close>

datatype PriorityLevel = IMMEDIATE | DAY_60 | DAY_180 | SCHEDULED | MONITOR

datatype MatchStatus = matched | uncertain | new | missing

record PriorityClassification =
  level :: PriorityLevel
  deadline :: string
  citation :: string
  score :: nat

text \<open>
  \<open>anomalies[anomalies.length - 1]\<close> is \<open>undefined\<close> for an empty array and reading its
  \<open>depth_percent\<close> throws a TypeError: the result \<open>None\<close>. \<open>ttc !== null && ttc <= c\<close> is
  the case \<open>Some t\<close> with \<open>t \<le> c\<close>.
\<close>

definition ttc_le :: "real option \<Rightarrow> real \<Rightarrow> bool" where
  "ttc_le ttc c = (case ttc of None \<Rightarrow> False | Some t \<Rightarrow> t \<le> c)"

definition classifyPriority ::
  "NormalizedAnomaly list \<Rightarrow> GrowthRates \<Rightarrow> MatchStatus \<Rightarrow> PriorityClassification option" where
  "classifyPriority anoms growth matchStatus =
     (case anoms of
        [] \<Rightarrow> None
      | _ # _ \<Rightarrow>
          let latest = last anoms;
              depth = depth_percent latest;
              depthGrowth = num_abs (depth_growth_rate growth);
              ttc = time_to_critical growth
          in if depth \<ge> 80 \<or> ttc_le ttc 1 \<or> num_ge depthGrowth 8 then
               Some \<lparr> level = IMMEDIATE, deadline = ''Immediate repair required'',
                 citation = ''49 CFR 192.485 - Remediation schedule for anomalies'',
                 score = 100 \<rparr>
             else if depth \<ge> 60 \<or> num_ge depthGrowth 5 \<or> ttc_le ttc 3 then
               Some \<lparr> level = DAY_60, deadline = ''Repair within 60 days'',
                 citation = ''ASME B31.8S - Table 4, Condition 2'', score = 80 \<rparr>
             else if depth \<ge> 40 \<or> num_ge depthGrowth 2 then
               Some \<lparr> level = DAY_180, deadline = ''Repair within 180 days'',
                 citation = ''ASME B31.8S - Table 4, Condition 3'', score = 60 \<rparr>
             else if depth \<ge> 20 \<or> num_ge depthGrowth 0.5 then
               Some \<lparr> level = SCHEDULED, deadline = ''Schedule repair at next opportunity'',
                 citation = ''49 CFR 192.485(c) - Scheduled conditions'', score = 40 \<rparr>
             else
               Some \<lparr> level = MONITOR, deadline = ''Monitor at next inspection'',
                 citation = ''49 CFR 192.485(d) - Monitored conditions'', score = 20 \<rparr>)"

section \<open>Normalizer (lib/parsing/normalizer.ts)\<close>

text \<open>
  A raw row holds spreadsheet cells. The model starts after the lexical step, which is the
  library's: a numeric cell is \<open>Missing\<close> (\<open>null\<close>, \<open>undefined\<close> or the empty string),
  \<open>Numeric r\<close> (a number, or a string that \<open>Number\<close> reads as \<open>r\<close>) or \<open>NotNumeric\<close>
  (\<open>Number\<close> gives NaN). A clock cell is \<open>ClockMissing\<close> (\<open>null\<close>, \<open>undefined\<close> or the empty
  string), \<open>ClockHM h m\<close> (a string matching \<open>^(\d{1,2}):(\d{2})$\<close>, with the two numbers
  \<open>parseInt\<close> reads), \<open>ClockDecimal r\<close> (any other cell on which \<open>parseFloat\<close> reads \<open>r\<close>) or
  \<open>ClockOther\<close> (\<open>parseFloat\<close> gives NaN). The feature type is the cell's string, or \<open>None\<close>
  for \<open>null\<close> and \<open>undefined\<close>.
\<close>

datatype raw_number = Missing | Numeric real | NotNumeric

datatype raw_clock = ClockMissing | ClockHM nat nat | ClockDecimal real | ClockOther

record RawAnomaly =
  raw_distance :: raw_number
  raw_odometer :: raw_number
  raw_joint_number :: raw_number
  raw_clock_position :: raw_clock
  raw_feature_type :: "string option"
  raw_depth_percent :: raw_number
  raw_length :: raw_number
  raw_width :: raw_number
  raw_wall_thickness :: raw_number

definition safeNum :: "raw_number \<Rightarrow> real \<Rightarrow> real" where
  "safeNum v fallback = (case v of Missing \<Rightarrow> fallback | NotNumeric \<Rightarrow> fallback | Numeric n \<Rightarrow> n)"

text \<open>
  The remainder operator \<open>%\<close> of JavaScript on numbers: the quotient is truncated towards
  zero, so the result has the sign of the dividend.
\<close>

definition trunc :: "real \<Rightarrow> int" where
  "trunc x = (if x \<ge> 0 then \<lfloor>x\<rfloor> else \<lceil>x\<rceil>)"

definition js_rem :: "real \<Rightarrow> real \<Rightarrow> real" where
  "js_rem x y = x - y * of_int (trunc (x / y))"

definition parseClockPosition :: "raw_clock \<Rightarrow> real" where
  "parseClockPosition v =
     (case v of
        ClockMissing \<Rightarrow> 0
      | ClockHM hours minutes \<Rightarrow> js_rem (real (hours mod 12) * 30 + real minutes * 0.5) 360
      | ClockDecimal num \<Rightarrow>
          if num \<le> 12 then js_rem (js_rem num 12 * 30) 360 else js_rem num 360
      | ClockOther \<Rightarrow> 0)"

text \<open>Strings: ASCII white space, \<open>trim\<close>, \<open>replace(/\s+/g, ' ')\<close>, \<open>toLowerCase\<close>, \<open>includes\<close>
  (\<open>includes_str\<close>, as \<open>includes\<close> is a keyword of Isabelle).\<close>

definition is_space :: "char \<Rightarrow> bool" where
  "is_space c \<longleftrightarrow> (of_char c :: nat) \<in> {9, 10, 11, 12, 13, 32}"

definition trim :: "string \<Rightarrow> string" where
  "trim s = rev (dropWhile is_space (rev (dropWhile is_space s)))"

fun collapse_spaces :: "bool \<Rightarrow> string \<Rightarrow> string" where
  "collapse_spaces in_run [] = []"
| "collapse_spaces in_run (c # cs) =
     (if is_space c
      then (if in_run then collapse_spaces True cs else CHR '' '' # collapse_spaces True cs)
      else c # collapse_spaces False cs)"

definition toLowerCase :: "string \<Rightarrow> string" where
  "toLowerCase s =
     map (\<lambda>c. if 65 \<le> (of_char c :: nat) \<and> (of_char c :: nat) \<le> 90
               then char_of ((of_char c :: nat) + 32) else c) s"

fun starts_with :: "string \<Rightarrow> string \<Rightarrow> bool" where
  "starts_with s [] = True"
| "starts_with [] (p # ps) = False"
| "starts_with (c # cs) (p # ps) = (c = p \<and> starts_with cs ps)"

fun includes_str :: "string \<Rightarrow> string \<Rightarrow> bool" where
  "includes_str [] p = (p = [])"
| "includes_str (c # cs) p = (starts_with (c # cs) p \<or> includes_str cs p)"

text \<open>The table of \<open>normalizeFeatureType\<close>, in the order in which \<open>Object.entries\<close> lists it.\<close>

definition mapping :: "(string \<times> FeatureType) list" where
  "mapping =
     [(''external metal loss'', external_metal_loss),
      (''ext metal loss'', external_metal_loss),
      (''ext. metal loss'', external_metal_loss),
      (''external corrosion'', external_metal_loss),
      (''ext corrosion'', external_metal_loss),
      (''internal metal loss'', internal_metal_loss),
      (''int metal loss'', internal_metal_loss),
      (''int. metal loss'', internal_metal_loss),
      (''internal corrosion'', internal_metal_loss),
      (''metal loss'', metal_loss),
      (''general metal loss'', metal_loss),
      (''corrosion'', metal_loss),
      (''dent'', dent),
      (''plain dent'', dent),
      (''mechanical damage'', dent),
      (''crack'', crack),
      (''scc'', crack),
      (''stress corrosion cracking'', crack),
      (''crack-like'', crack),
      (''gouge'', gouge),
      (''lamination'', lamination),
      (''manufacturing defect'', manufacturing_defect),
      (''mfg defect'', manufacturing_defect),
      (''girth weld'', girth_weld),
      (''circumferential weld'', girth_weld),
      (''seam weld'', seam_weld),
      (''longitudinal weld'', seam_weld),
      (''valve'', valve),
      (''mainline valve'', valve),
      (''fitting'', fitting),
      (''tee'', fitting),
      (''elbow'', fitting),
      (''reducer'', fitting),
      (''casing'', casing)]"

definition normalizeFeatureType :: "string \<Rightarrow> FeatureType" where
  "normalizeFeatureType raw =
     (let lower = trim (toLowerCase raw) in
      case find (\<lambda>(pattern, type). includes_str lower pattern \<or> lower = pattern) mapping of
        Some (pattern, type) \<Rightarrow> type
      | None \<Rightarrow> unknown)"

definition clamp :: "real \<Rightarrow> real \<Rightarrow> real \<Rightarrow> real" where
  "clamp v lo hi = max lo (min hi v)"

text \<open>
  The callback of \<open>rawData.map\<close>. The string cleanup pass trims every string cell and
  collapses its white space; the numeric cells are past it (see above).
  \<open>r.feature_type || 'unknown'\<close> is \<open>'unknown'\<close> for a missing or empty cell.
\<close>

definition normalize_row :: "nat \<Rightarrow> nat \<Rightarrow> RawAnomaly \<Rightarrow> NormalizedAnomaly" where
  "normalize_row runIndex idx r =
     (let feature_type = map_option (\<lambda>v. collapse_spaces False (trim v)) (raw_feature_type r);
          clockDegrees = parseClockPosition (raw_clock_position r);
          normalizedType = normalizeFeatureType
            (case feature_type of None \<Rightarrow> ''unknown''
             | Some v \<Rightarrow> if v = [] then ''unknown'' else v);
          isReference = (normalizedType \<in> set [girth_weld, valve, fitting]);
          dist = safeNum (raw_distance r) 0;
          odo = safeNum (raw_odometer r) dist;
          hasMissing = (raw_distance r = Missing \<or> raw_depth_percent r = Missing
                        \<or> feature_type = None \<or> feature_type = Some []
                        \<or> raw_clock_position r = ClockMissing)
      in \<lparr> anomaly_id = (runIndex, idx),
           distance = dist,
           odometer = odo,
           corrected_distance = dist,
           joint_number = safeNum (raw_joint_number r) 0,
           clock_degrees = clockDegrees,
           canonical_type = normalizedType,
           depth_percent = clamp (safeNum (raw_depth_percent r) 0) 0 100,
           length_in = \<bar>safeNum (raw_length r) 0\<bar>,
           width = \<bar>safeNum (raw_width r) 0\<bar>,
           wall_thickness = safeNum (raw_wall_thickness r) 0.375,
           run_index = runIndex,
           is_reference_point = isReference,
           has_missing_data = hasMissing,
           cleaning_flags = [] \<rparr>)"

definition normalizeAnomalies :: "RawAnomaly list \<Rightarrow> nat \<Rightarrow> NormalizedAnomaly list" where
  "normalizeAnomalies rawData runIndex =
     sort_key distance
       (map (\<lambda>(idx, row). normalize_row runIndex idx row) (enumerate 0 rawData))"

section \<open>Cleaner (lib/parsing/dataCleaner.ts)\<close>

text \<open>
  Every pass returns the new anomaly list together with a report for the audit log; the
  model keeps the list and leaves the report's texts and counters out.
\<close>

definition median :: "real list \<Rightarrow> real" where
  "median vals =
     (if length vals = 0 then 0
      else
        let sorted = sort vals;
            mid = length sorted div 2
        in if length sorted mod 2 \<noteq> 0 then sorted ! mid
           else (sorted ! (mid - 1) + sorted ! mid) / 2)"

text \<open>\<open>Math.max(...xs)\<close> for a non-empty array.\<close>

definition list_max :: "real list \<Rightarrow> real" where
  "list_max xs = fold max (tl xs) (hd xs)"

subsection \<open>Pass 1: duplicate removal\<close>

text \<open>
  The composite key joins three numbers printed by \<open>toFixed\<close> and the canonical type with
  underscores. The printed numbers hold no underscore, so two keys are the same string
  exactly when their four parts agree: the key is the tuple.
\<close>

definition dup_key :: "NormalizedAnomaly \<Rightarrow> fixed \<times> fixed \<times> FeatureType \<times> fixed" where
  "dup_key a =
     (toFixed (distance a) 2, toFixed (clock_degrees a) 0, canonical_type a,
      toFixed (depth_percent a) 1)"

definition removeDuplicates :: "NormalizedAnomaly list \<Rightarrow> NormalizedAnomaly list" where
  "removeDuplicates data =
     fst (fold (\<lambda>a (unique, seen).
                  let key = dup_key a in
                  if key \<notin> set seen then (unique @ [a], key # seen) else (unique, seen))
               data ([], []))"

subsection \<open>Pass 2: unit detection and conversion\<close>

definition METERS_TO_FEET :: real where "METERS_TO_FEET = 3.28084"
definition MM_TO_IN :: real where "MM_TO_IN = 0.0393701"

text \<open>The three heuristics read the input \<open>data\<close>; the conversions rewrite \<open>result\<close>.\<close>

definition detectAndConvertUnits :: "NormalizedAnomaly list \<Rightarrow> NormalizedAnomaly list" where
  "detectAndConvertUnits data =
     (let result0 = data;
          distances = map distance (filter (\<lambda>a. distance a > 0) data);
          result1 =
            (if length distances > 0
                \<and> list_max distances < 100000 \<and> median distances < 30000
             then map (\<lambda>a. a\<lparr> distance := distance a * METERS_TO_FEET,
                               odometer := odometer a * METERS_TO_FEET,
                               corrected_distance := corrected_distance a * METERS_TO_FEET,
                               cleaning_flags :=
                                 cleaning_flags a @ [distance_converted_m_to_ft] \<rparr>) result0
             else result0);
          lengths = map length_in (filter (\<lambda>a. length_in a > 0) data);
          result2 =
            (if length lengths > 0 \<and> median lengths > 10
             then map (\<lambda>a. a\<lparr> length_in := length_in a * MM_TO_IN,
                               width := width a * MM_TO_IN,
                               cleaning_flags :=
                                 cleaning_flags a @ [dimensions_converted_mm_to_in] \<rparr>) result1
             else result1);
          wts = map wall_thickness (filter (\<lambda>a. wall_thickness a > 0) data);
          result3 =
            (if length wts > 0 \<and> median wts > 3
             then map (\<lambda>a. a\<lparr> wall_thickness := wall_thickness a * MM_TO_IN,
                               cleaning_flags :=
                                 cleaning_flags a @ [wt_converted_mm_to_in] \<rparr>) result2
             else result2)
      in result3)"

subsection \<open>Pass 3: outlier clamping\<close>

text \<open>The six \<open>if\<close> statements run in sequence on the local variables of the callback.\<close>

definition clamp_one :: "NormalizedAnomaly \<Rightarrow> NormalizedAnomaly" where
  "clamp_one a =
     (let flags0 = cleaning_flags a;
          (depthPct1, flags1) =
            (if depth_percent a < 0 then (0, flags0 @ [depth_clamped_low])
             else (depth_percent a, flags0));
          (depthPct2, flags2) =
            (if depthPct1 > 100 then (100, flags1 @ [depth_clamped_high])
             else (depthPct1, flags1));
          (wt1, flags3) =
            (if wall_thickness a > 0 \<and> wall_thickness a < 0.05
             then (0.188, flags2 @ [wt_clamped_low])
             else (wall_thickness a, flags2));
          (wt2, flags4) =
            (if wt1 > 2.5 then (2.0, flags3 @ [wt_clamped_high]) else (wt1, flags3));
          (len, flags5) =
            (if length_in a > 100 then (100, flags4 @ [length_clamped])
             else (length_in a, flags4));
          (wid, flags6) =
            (if width a > 100 then (100, flags5 @ [width_clamped]) else (width a, flags5))
      in a\<lparr> depth_percent := depthPct2, wall_thickness := wt2, length_in := len,
            width := wid, cleaning_flags := flags6 \<rparr>)"

definition clampOutliers :: "NormalizedAnomaly list \<Rightarrow> NormalizedAnomaly list" where
  "clampOutliers data = map clamp_one data"

subsection \<open>Pass 4: missing value interpolation\<close>

text \<open>
  The callback of \<open>sorted.map((a, idx) => ...)\<close>; \<open>sorted\<close> (here \<open>sortedData\<close>) is a copy of
  the input in the input's order, and the neighbours are read from it, not from the result.
\<close>

definition interpolate_one :: "NormalizedAnomaly list \<Rightarrow> nat \<Rightarrow> NormalizedAnomaly" where
  "interpolate_one sortedData idx =
     (let a = sortedData ! idx;
          flags = cleaning_flags a
      in if distance a = 0 \<and> idx > 0 \<and> idx < length sortedData - 1
            \<and> distance (sortedData ! (idx - 1)) > 0 \<and> distance (sortedData ! (idx + 1)) > 0
         then
           (let interpolated = (distance (sortedData ! (idx - 1)) + distance (sortedData ! (idx + 1))) / 2
            in a\<lparr> distance := interpolated, corrected_distance := interpolated,
                  cleaning_flags := flags @ [distance_interpolated] \<rparr>)
         else if odometer a = 0 \<and> distance a > 0
         then a\<lparr> odometer := distance a, cleaning_flags := flags @ [odometer_from_distance] \<rparr>
         else a\<lparr> cleaning_flags := flags \<rparr>)"

definition interpolateMissing :: "NormalizedAnomaly list \<Rightarrow> NormalizedAnomaly list" where
  "interpolateMissing data = map (interpolate_one data) [0..<length data]"

subsection \<open>Pass 5: distance monotonicity\<close>

definition monotonic_one :: "NormalizedAnomaly list \<Rightarrow> nat \<Rightarrow> NormalizedAnomaly" where
  "monotonic_one data idx =
     (let a = data ! idx in
      if idx = 0 then a
      else
        let prev = data ! (idx - 1) in
        if distance a < distance prev \<and> distance a > 0 \<and> distance prev > 0
        then
          (let diff = distance prev - distance a in
           if diff < 10
           then a\<lparr> cleaning_flags := cleaning_flags a @ [distance_backward_jump (toFixed diff 1)] \<rparr>
           else a\<lparr> cleaning_flags :=
                      cleaning_flags a @ [distance_major_backward_jump (toFixed diff 0)] \<rparr>)
        else a)"

definition enforceMonotonicity :: "NormalizedAnomaly list \<Rightarrow> NormalizedAnomaly list" where
  "enforceMonotonicity data = map (monotonic_one data) [0..<length data]"

subsection \<open>Pass 6: cross-run wall thickness consistency\<close>

definition crossRunWallThickness ::
  "NormalizedAnomaly list \<Rightarrow> NormalizedAnomaly list list \<Rightarrow> NormalizedAnomaly list" where
  "crossRunWallThickness data otherRuns =
     (let otherWts = map wall_thickness (filter (\<lambda>a. wall_thickness a > 0) (concat otherRuns))
      in if length otherWts = 0 then data
         else
           let medianOtherWt = median otherWts
           in map (\<lambda>a.
                     if wall_thickness a > 0
                     then
                       (let deviation = \<bar>wall_thickness a - medianOtherWt\<bar> / medianOtherWt
                        in if deviation > 0.3
                           then a\<lparr> cleaning_flags := cleaning_flags a
                                    @ [wt_cross_run_deviation (toFixed (deviation * 100) 0)] \<rparr>
                           else a)
                     else a) data)"

subsection \<open>Pass 7: zero dimensions\<close>

definition flagZeroDimensions :: "NormalizedAnomaly list \<Rightarrow> NormalizedAnomaly list" where
  "flagZeroDimensions data =
     map (\<lambda>a.
            if is_reference_point a then a
            else if length_in a = 0 \<and> width a = 0 \<and> depth_percent a = 0
            then a\<lparr> cleaning_flags := cleaning_flags a @ [zero_dimensions],
                    has_missing_data := True \<rparr>
            else a) data"

subsection \<open>The seven passes in order\<close>

text \<open>
  \<open>otherRuns\<close> is an optional parameter: \<open>None\<close> when the caller leaves it out. The result
  is the field \<open>cleaned\<close> of the source's result; \<open>runIndex\<close> and \<open>runYear\<close> only label
  the report.
\<close>

definition cleanData ::
  "NormalizedAnomaly list \<Rightarrow> nat \<Rightarrow> real \<Rightarrow> NormalizedAnomaly list list option
     \<Rightarrow> NormalizedAnomaly list" where
  "cleanData anomalies runIndex runYear otherRuns =
     (let data0 = anomalies;
          data1 = removeDuplicates data0;
          data2 = detectAndConvertUnits data1;
          data3 = clampOutliers data2;
          data4 = interpolateMissing data3;
          data5 = enforceMonotonicity data4;
          data6 = (case otherRuns of
                     None \<Rightarrow> data5
                   | Some others \<Rightarrow>
                       if length others > 0 then crossRunWallThickness data5 others else data5);
          data7 = flagZeroDimensions data6
      in data7)"

section \<open>Reference points (lib/alignment/referenceMatching.ts)\<close>

definition extractReferencePoints :: "NormalizedAnomaly list \<Rightarrow> nat \<Rightarrow> ReferencePoint list" where
  "extractReferencePoints anomalies runIndex =
     sort_key ref_distance
       (map (\<lambda>a. \<lparr> ref_id = anomaly_id a, ref_distance = distance a,
                    ref_odometer = odometer a, ref_joint_number = joint_number a,
                    ref_feature_type = canonical_type a, ref_run_index = runIndex \<rparr>)
            (filter is_reference_point anomalies))"

text \<open>
  The inner loop over \<open>j\<close>: the state is \<open>None\<close> for \<open>bestIdx = -1\<close>, \<open>bestScore = Infinity\<close>
  and \<open>Some (bestIdx, bestScore)\<close> afterwards.
\<close>

definition best_reference ::
  "ReferencePoint list \<Rightarrow> nat list \<Rightarrow> real \<Rightarrow> ReferencePoint \<Rightarrow> (nat \<times> real) option" where
  "best_reference run2Refs usedRun2Indices distanceTolerance ref1 =
     fold (\<lambda>j best.
             if j \<in> set usedRun2Indices then best
             else
               let ref2 = run2Refs ! j;
                   distDiff = \<bar>ref_distance ref1 - ref_distance ref2\<bar>
               in if distDiff > distanceTolerance then best
                  else
                    let score =
                          (if ref_joint_number ref1 > 0 \<and> ref_joint_number ref2 > 0
                           then distDiff + \<bar>ref_joint_number ref1 - ref_joint_number ref2\<bar> * 100
                           else distDiff)
                    in if (case best of None \<Rightarrow> True | Some (bestIdx, bestScore) \<Rightarrow> score < bestScore)
                       then Some (j, score) else best)
          [0..<length run2Refs] None"

definition matchReferencePoints ::
  "ReferencePoint list \<Rightarrow> ReferencePoint list \<Rightarrow> real \<Rightarrow> MatchedReference list" where
  "matchReferencePoints run1Refs run2Refs distanceTolerance =
     fst (fold (\<lambda>ref1 (matchedRefs, usedRun2Indices).
                  case best_reference run2Refs usedRun2Indices distanceTolerance ref1 of
                    None \<Rightarrow> (matchedRefs, usedRun2Indices)
                  | Some (bestIdx, bestScore) \<Rightarrow>
                      let ref2 = run2Refs ! bestIdx in
                      (matchedRefs @
                         [\<lparr> run1 = ref1, run2 = ref2,
                            distance_offset = ref_distance ref2 - ref_distance ref1,
                            odometer_drift = (ref_distance ref2 - ref_odometer ref2)
                                             - (ref_distance ref1 - ref_odometer ref1) \<rparr>],
                       bestIdx # usedRun2Indices))
               run1Refs ([], []))"

section \<open>Assignment (lib/matching/hungarian.ts)\<close>

definition LARGE_COST :: real where "LARGE_COST = 1000"

text \<open>
  \<open>buildCostMatrix\<close>: the caller's rows and columns are indices of the matrix, so every
  write \<open>matrix[row][col] = ...\<close> replaces an existing cell.
\<close>

definition buildCostMatrix :: "(nat \<times> nat \<times> real) list \<Rightarrow> nat \<Rightarrow> nat \<Rightarrow> real list list" where
  "buildCostMatrix similarities nRows nCols =
     fold (\<lambda>(r, c, sc) matrix. matrix[r := (matrix ! r)[c := 1 - sc]])
          similarities (replicate nRows (replicate nCols LARGE_COST))"

text \<open>\<open>Math.min(...xs)\<close> for a non-empty array.\<close>

definition list_min :: "real list \<Rightarrow> real" where
  "list_min xs = fold min (tl xs) (hd xs)"

text \<open>
  The scan of one row for the cheapest unused column: \<open>None\<close> is \<open>bestJ = -1\<close>,
  \<open>bestCost = Infinity\<close>.
\<close>

definition best_column :: "real list list \<Rightarrow> nat \<Rightarrow> nat list \<Rightarrow> nat \<Rightarrow> (nat \<times> real) option" where
  "best_column matrix m usedCols i =
     fold (\<lambda>j best.
             if j \<in> set usedCols then best
             else if (case best of None \<Rightarrow> True | Some (bestJ, bestCost) \<Rightarrow> matrix ! i ! j < bestCost)
             then Some (j, matrix ! i ! j) else best)
          [0..<m] None"

text \<open>
  The body of the loop over the rows \<open>i\<close>. The array \<open>assignment\<close> holds \<open>None\<close> for \<open>-1\<close>.
\<close>

definition assign_row ::
  "real list list \<Rightarrow> nat \<Rightarrow> nat \<Rightarrow> nat option list \<times> nat list \<Rightarrow> nat option list \<times> nat list" where
  "assign_row matrix m i st =
     (let (assignment, usedCols) = st in
      if assignment ! i \<noteq> None then st
      else
        case best_column matrix m usedCols i of
          None \<Rightarrow> st
        | Some (bestJ, bestCost) \<Rightarrow> (assignment[i := Some bestJ], bestJ # usedCols))"

text \<open>
  The rows of a cost matrix all have the length of the first row. The column minimum
  starts from \<open>Infinity\<close> and runs over \<open>size \<ge> 1\<close> rows: it is the minimum of the column.
\<close>

definition hungarianAlgorithm :: "real list list \<Rightarrow> nat option list" where
  "hungarianAlgorithm costMatrix =
     (let n = length costMatrix;
          m = (case costMatrix of [] \<Rightarrow> 0 | row0 # _ \<Rightarrow> length row0)
      in if n = 0 \<or> m = 0 then []
         else
           let size = max n m;
               matrix0 = map (\<lambda>i. map (\<lambda>j. if i < n \<and> j < m then costMatrix ! i ! j else 0)
                                       [0..<size]) [0..<size];
               matrix1 = map (\<lambda>r. let rowMin = list_min r in map (\<lambda>x. x - rowMin) r) matrix0;
               matrix2 = fold (\<lambda>j matrix.
                                 let colMin = list_min (map (\<lambda>i. matrix ! i ! j) [0..<size])
                                 in map (\<lambda>r. r[j := r ! j - colMin]) matrix)
                              [0..<size] matrix1
           in fst (fold (\<lambda>pass st. fold (assign_row matrix2 m) [0..<n] st) [0..<3]
                        (replicate n None, [])))"

section \<open>Matcher (lib/matching/matcher.ts)\<close>

definition DISTANCE_FILTER :: real where "DISTANCE_FILTER = 200"
definition CONFIDENCE_HIGH :: real where "CONFIDENCE_HIGH = 0.7"
definition CONFIDENCE_LOW :: real where "CONFIDENCE_LOW = 0.4"

text \<open>
  The fields of a candidate carry the prefix \<open>cand_\<close> (\<open>score\<close> is a field of the
  priority classification already).
\<close>

record Candidate =
  cand_row :: nat
  cand_col :: nat
  cand_score :: real
  cand_breakdown :: SimilarityBreakdown

record MatchPair =
  run1Idx :: nat
  run2Idx :: nat
  similarity :: SimilarityBreakdown

record MatchResult =
  pairs :: "MatchPair list"
  newAnomalies :: "nat list"
  missingAnomalies :: "nat list"

text \<open>
  \<open>r1\<close> and \<open>r2\<close> are the filtered arrays. The objects of a run array are pairwise distinct
  (each comes from an object literal of its own) and \<open>indexOf\<close> compares objects by
  identity, so \<open>run1.indexOf(r1[i])\<close> is the position of \<open>run1\<close> that the \<open>i\<close>-th element of
  \<open>r1\<close> was filtered from. The model keeps these positions: \<open>r1 ! i\<close> is the position and
  \<open>run1 ! (r1 ! i)\<close> the object \<open>r1[i]\<close>.
\<close>

definition non_reference :: "NormalizedAnomaly list \<Rightarrow> nat list" where
  "non_reference run = filter (\<lambda>k. \<not> is_reference_point (run ! k)) [0..<length run]"

definition candidates_of ::
  "NormalizedAnomaly list \<Rightarrow> NormalizedAnomaly list \<Rightarrow> nat list \<Rightarrow> nat list \<Rightarrow> Candidate list" where
  "candidates_of run1' run2' r1 r2 =
     concat (map (\<lambda>i. concat (map (\<lambda>j.
        let a1 = run1' ! (r1 ! i);
            a2 = run2' ! (r2 ! j);
            distDiff = \<bar>corrected_distance a1 - corrected_distance a2\<bar>
        in if distDiff > DISTANCE_FILTER then []
           else
             let sim = calculateSimilarity a1 a2
             in if sim_total sim > 0.2
                then [\<lparr> cand_row = i, cand_col = j, cand_score = sim_total sim,
                        cand_breakdown = sim \<rparr>]
                else [])
        [0..<length r2])) [0..<length r1])"

text \<open>
  The loop over \<open>assignment\<close>: the accepted triples (\<open>i\<close>, \<open>j\<close>, candidate), in the order of
  \<open>i\<close>. \<open>matchedR1\<close> and \<open>matchedR2\<close> are the sets of their first and second components.
\<close>

definition accepted_of :: "nat option list \<Rightarrow> Candidate list \<Rightarrow> nat \<Rightarrow> (nat \<times> nat \<times> Candidate) list" where
  "accepted_of assignment candidates n2 =
     concat (map (\<lambda>i.
        case assignment ! i of
          None \<Rightarrow> []
        | Some j \<Rightarrow>
            if j \<ge> n2 then []
            else
              (case find (\<lambda>c. cand_row c = i \<and> cand_col c = j) candidates of
                 None \<Rightarrow> []
               | Some cand \<Rightarrow> if cand_score cand \<ge> CONFIDENCE_LOW then [(i, j, cand)] else []))
        [0..<length assignment])"

definition matchAnomalies :: "NormalizedAnomaly list \<Rightarrow> NormalizedAnomaly list \<Rightarrow> MatchResult" where
  "matchAnomalies run1' run2' =
     (let r1 = non_reference run1';
          r2 = non_reference run2';
          candidates = candidates_of run1' run2' r1 r2;
          costMatrix = buildCostMatrix
            (map (\<lambda>c. (cand_row c, cand_col c, cand_score c)) candidates) (length r1) (length r2);
          assignment = hungarianAlgorithm costMatrix;
          accepted = accepted_of assignment candidates (length r2);
          matchedR1 = map (\<lambda>(i, j, cand). i) accepted;
          matchedR2 = map (\<lambda>(i, j, cand). j) accepted
      in \<lparr> pairs = map (\<lambda>(i, j, cand).
                          \<lparr> run1Idx = r1 ! i, run2Idx = r2 ! j,
                            similarity = cand_breakdown cand \<rparr>) accepted,
           newAnomalies =
             map (\<lambda>j. r2 ! j) (filter (\<lambda>j. j \<notin> set matchedR2) [0..<length r2]),
           missingAnomalies =
             map (\<lambda>i. r1 ! i) (filter (\<lambda>i. i \<notin> set matchedR1) [0..<length r1]) \<rparr>)"

text \<open>
  A chain holds references to anomaly objects of the runs. A reference is the pair
  (position of the run in \<open>runs\<close>, position of the object in that run); \<open>deref\<close> reads the
  object, and is \<open>None\<close> where \<open>runs[r][k]\<close> is \<open>undefined\<close>.
\<close>

type_synonym anomaly_ref = "nat \<times> nat"

definition deref :: "NormalizedAnomaly list list \<Rightarrow> anomaly_ref \<Rightarrow> NormalizedAnomaly option" where
  "deref runs ref =
     (let (r, k) = ref in
      if r < length runs \<and> k < length (runs ! r) then Some (runs ! r ! k) else None)"

text \<open>
  \<open>AnomalyMatch\<close>. The growth fields of the source (\<open>depth_growth_rate\<close>,
  \<open>length_growth_rate\<close>, \<open>width_growth_rate\<close>, \<open>time_to_critical\<close>) are the fields of \<open>growth\<close>;
  \<open>priority\<close>, \<open>repair_deadline\<close> and \<open>regulatory_citation\<close> are \<open>level\<close>, \<open>deadline\<close> and
  \<open>citation\<close> of \<open>classification\<close>. \<open>match_id\<close> is the number behind the string
  \<open>match-<n>\<close>. The map position (\<open>latitude\<close>, \<open>longitude\<close>) is left out.
\<close>

record AnomalyMatch =
  match_id :: nat
  anomalies :: "anomaly_ref list"
  run_indices :: "nat list"
  confidence :: real
  match_status :: MatchStatus
  similarity_breakdown :: SimilarityBreakdown
  growth :: GrowthRates
  classification :: PriorityClassification

text \<open>The arguments of one call of \<open>buildMatchObject\<close>, but for the id and the years.\<close>

record MatchArgs =
  arg_anomalies :: "anomaly_ref list"
  arg_runIndices :: "nat list"
  arg_confidence :: real
  arg_status :: MatchStatus
  arg_similarity :: SimilarityBreakdown

text \<open>
  \<open>buildMatchObject\<close> reads fields of every object of the chain; an \<open>undefined\<close> among them
  or an empty chain throws a TypeError, the result \<open>None\<close>.
\<close>

definition buildMatchObject ::
  "nat \<Rightarrow> MatchArgs \<Rightarrow> NormalizedAnomaly list list \<Rightarrow> real list \<Rightarrow> AnomalyMatch option" where
  "buildMatchObject n args runs years =
     (case those (map (deref runs) (arg_anomalies args)) of
        None \<Rightarrow> None
      | Some objs \<Rightarrow>
          let g = calculateGrowthRates objs (arg_runIndices args) years in
          case classifyPriority objs g (arg_status args) of
            None \<Rightarrow> None
          | Some p \<Rightarrow>
              Some \<lparr> match_id = n,
                     anomalies = arg_anomalies args,
                     run_indices = arg_runIndices args,
                     confidence = arg_confidence args,
                     match_status = arg_status args,
                     similarity_breakdown = arg_similarity args,
                     growth = g,
                     classification = p \<rparr>)"

definition no_similarity :: SimilarityBreakdown where
  "no_similarity = \<lparr> sim_distance = 0, sim_dimensional = 0, sim_clock = 0,
     sim_feature_type = 0, sim_total = 0 \<rparr>"

text \<open>
  \<open>run2ToRun3Map\<close> is a \<open>Map\<close>, which keeps its keys in insertion order: an association
  list with \<open>AList.update\<close> for \<open>set\<close>, \<open>map_of\<close> for \<open>get\<close> and \<open>AList.delete\<close> for
  \<open>delete\<close>. \<open>runs[2]\<close> is truthy when the third run exists.
\<close>

type_synonym run3_map = "(nat \<times> (nat \<times> SimilarityBreakdown)) list"

text \<open>The body of the loop over \<open>match12.pairs\<close>.\<close>

definition pair_step ::
  "NormalizedAnomaly list list \<Rightarrow> MatchPair \<Rightarrow> MatchArgs list \<times> run3_map
     \<Rightarrow> MatchArgs list \<times> run3_map" where
  "pair_step runs pair st =
     (let (allMatches, run2ToRun3Map) = st;
          anoms0 = [(0, run1Idx pair), (1, run2Idx pair)];
          runIndices0 = [0, 1];
          (anoms, runIndices, map') =
            (case map_of run2ToRun3Map (run2Idx pair) of
               Some (run3Idx, sim) \<Rightarrow>
                 if 2 < length runs
                 then (anoms0 @ [(2, run3Idx)], runIndices0 @ [2],
                       AList.delete (run2Idx pair) run2ToRun3Map)
                 else (anoms0, runIndices0, run2ToRun3Map)
             | None \<Rightarrow> (anoms0, runIndices0, run2ToRun3Map));
          conf = sim_total (similarity pair);
          status = (if conf < CONFIDENCE_HIGH \<and> conf \<ge> CONFIDENCE_LOW then uncertain
                    else matched)
      in (allMatches @
            [\<lparr> arg_anomalies = anoms, arg_runIndices = runIndices, arg_confidence = conf,
               arg_status = status, arg_similarity = similarity pair \<rparr>],
          map'))"

text \<open>The body of the loop over \<open>match12.newAnomalies\<close>.\<close>

definition new_step ::
  "NormalizedAnomaly list list \<Rightarrow> nat \<Rightarrow> MatchArgs list \<times> run3_map
     \<Rightarrow> MatchArgs list \<times> run3_map" where
  "new_step runs run2Idx' st =
     (let (allMatches, run2ToRun3Map) = st;
          anoms0 = [(1, run2Idx')];
          runIndices0 = [1];
          (anoms, runIndices, map') =
            (case map_of run2ToRun3Map run2Idx' of
               Some (run3Idx, sim) \<Rightarrow>
                 if 2 < length runs
                 then (anoms0 @ [(2, run3Idx)], runIndices0 @ [2],
                       AList.delete run2Idx' run2ToRun3Map)
                 else (anoms0, runIndices0, run2ToRun3Map)
             | None \<Rightarrow> (anoms0, runIndices0, run2ToRun3Map))
      in (allMatches @
            [\<lparr> arg_anomalies = anoms, arg_runIndices = runIndices, arg_confidence = 0,
               arg_status = new, arg_similarity = no_similarity \<rparr>],
          map'))"

text \<open>A chain of one anomaly, as the last three loops build it.\<close>

definition single_args :: "anomaly_ref \<Rightarrow> MatchStatus \<Rightarrow> MatchArgs" where
  "single_args ref status =
     \<lparr> arg_anomalies = [ref], arg_runIndices = [fst ref], arg_confidence = 0,
       arg_status = status, arg_similarity = no_similarity \<rparr>"

text \<open>
  The five loops push their chains in order, and the \<open>n\<close>-th chain pushed gets the id
  \<open>n\<close>: \<open>match_args\<close> lists the arguments of the calls of \<open>buildMatchObject\<close> in that
  order, and \<open>matchAcrossRuns\<close> builds the objects. The result is \<open>None\<close> when a call
  throws.
\<close>

definition match_args :: "NormalizedAnomaly list list \<Rightarrow> MatchArgs list" where
  "match_args runs =
     (let match12 = matchAnomalies (runs ! 0) (runs ! 1);
          match23 = (if length runs \<ge> 3 then Some (matchAnomalies (runs ! 1) (runs ! 2))
                     else None);
          map0 = (case match23 of
                    None \<Rightarrow> []
                  | Some m23 \<Rightarrow>
                      fold (\<lambda>pair. AList.update (run1Idx pair) (run2Idx pair, similarity pair))
                           (pairs m23) []);
          (matches1, map1) = fold (pair_step runs) (pairs match12) ([], map0);
          (matches2, map2) = fold (new_step runs) (newAnomalies match12) (matches1, map1);
          matches3 = matches2 @
            map (\<lambda>run1Idx'. single_args (0, run1Idx') missing) (missingAnomalies match12)
      in case match23 of
           None \<Rightarrow> matches3
         | Some m23 \<Rightarrow>
             matches3 @
             concat (map (\<lambda>(key, val).
                       if 2 < length runs then [single_args (2, fst val) new] else []) map2) @
             concat (map (\<lambda>run3Idx.
                       if 2 < length runs then [single_args (2, run3Idx) new] else [])
                     (newAnomalies m23)))"

definition matchAcrossRuns ::
  "NormalizedAnomaly list list \<Rightarrow> real list \<Rightarrow> AnomalyMatch list option" where
  "matchAcrossRuns runs years =
     (if length runs < 2 then Some []
      else those (map (\<lambda>(n, args). buildMatchObject n args runs years)
                      (enumerate 0 (match_args runs))))"

section \<open>Orchestrator (lib/pipeline.ts, components/upload/FileUploader.tsx)\<close>

text \<open>
  A run file, with the two fields the engine reads. \<open>handleFileDrop\<close> builds it from the
  rows of the sheet dropped on a slot.
\<close>

record RunFile =
  year :: real
  normalized_data :: "NormalizedAnomaly list"

definition handleFileDrop :: "RawAnomaly list \<Rightarrow> nat \<Rightarrow> real \<Rightarrow> RunFile" where
  "handleFileDrop rawData slotIndex slotYear =
     \<lparr> year = slotYear, normalized_data = normalizeAnomalies rawData slotIndex \<rparr>"

text \<open>
  The engine's result: \<open>corrected_runs\<close> is \<open>correctedRuns\<close>, whose flattening the store
  receives as the aligned anomalies (with map positions added, which the model leaves
  out), and \<open>matches\<close> are the chains. The drift series and the progress messages are
  left out.
\<close>

record EngineResult =
  corrected_runs :: "NormalizedAnomaly list list"
  matches :: "AnomalyMatch list"

text \<open>The cleaning loop: every run is cleaned with the other raw runs at hand.\<close>

definition clean_runs :: "NormalizedAnomaly list list \<Rightarrow> real list \<Rightarrow> NormalizedAnomaly list list" where
  "clean_runs rawRuns sortedYears =
     map (\<lambda>i.
            let otherRuns = map (\<lambda>j. rawRuns ! j) (filter (\<lambda>j. j \<noteq> i) [0..<length rawRuns])
            in cleanData (rawRuns ! i) i (sortedYears ! i) (Some otherRuns))
         [0..<length rawRuns]"

text \<open>
  The alignment loop: run \<open>i + 1\<close> is corrected against the reference points of run \<open>i\<close>;
  run 0 is the baseline and enters \<open>correctedRuns\<close> as it is.
\<close>

definition correct_runs :: "NormalizedAnomaly list list \<Rightarrow> NormalizedAnomaly list list" where
  "correct_runs runs =
     (let refPoints = map (\<lambda>(i, run). extractReferencePoints run i) (enumerate 0 runs)
      in (runs ! 0) #
         map (\<lambda>i.
                let matchedRefs = matchReferencePoints (refPoints ! i) (refPoints ! (i + 1)) 500;
                    zones = createAlignmentZones matchedRefs
                in applyDistanceCorrection (runs ! (i + 1)) zones matchedRefs)
             [0..<length runs - 1])"

text \<open>
  \<open>runPipeline\<close>. Without a run file \<open>runs[0]\<close> is \<open>undefined\<close> and the drift calculation
  throws: the result \<open>None\<close>, as when the matcher throws.
\<close>

definition runPipeline :: "RunFile list \<Rightarrow> EngineResult option" where
  "runPipeline runFiles =
     (if runFiles = [] then None
      else
        let sortedFiles = sort_key year runFiles;
            sortedYears = map year sortedFiles;
            rawRuns = map normalized_data sortedFiles;
            runs = clean_runs rawRuns sortedYears;
            correctedRuns = correct_runs runs
        in case matchAcrossRuns correctedRuns sortedYears of
             None \<Rightarrow> None
           | Some ms \<Rightarrow> Some \<lparr> corrected_runs = correctedRuns, matches = ms \<rparr>)"

text \<open>
  \<open>handleAnalyze\<close>: the engine on the uploaded sheets. Slot \<open>i\<close> holds the rows of a sheet
  and the year entered for it; the run files go to \<open>runPipeline\<close> in the order of the slots.
\<close>

definition handleAnalyze :: "(RawAnomaly list \<times> real) list \<Rightarrow> EngineResult option" where
  "handleAnalyze slots =
     runPipeline (map (\<lambda>(slotIndex, rawData, slotYear). handleFileDrop rawData slotIndex slotYear)
                      (enumerate 0 slots))"

section \<open>Predicates used in the proofs\<close>

text \<open>
  \<open>aligned\<close>: the corrected distance is the raw distance. \<open>not_interpolated\<close>: the flag
  \<open>distance_interpolated\<close> is absent. \<open>scaled a b\<close>: \<open>b\<close> is \<open>a\<close> with both distances
  multiplied by one positive factor and with flags appended, none of them
  \<open>distance_interpolated\<close>.
\<close>

definition aligned :: "NormalizedAnomaly \<Rightarrow> bool" where
  "aligned a \<longleftrightarrow> corrected_distance a = distance a"

definition not_interpolated :: "NormalizedAnomaly \<Rightarrow> bool" where
  "not_interpolated a \<longleftrightarrow> distance_interpolated \<notin> set (cleaning_flags a)"

definition scaled :: "NormalizedAnomaly \<Rightarrow> NormalizedAnomaly \<Rightarrow> bool" where
  "scaled a b \<longleftrightarrow>
     (\<exists>c>0. distance b = distance a * c \<and> corrected_distance b = corrected_distance a * c) \<and>
     (\<exists>fl. cleaning_flags b = cleaning_flags a @ fl \<and> distance_interpolated \<notin> set fl)"

text \<open>
  The invariant of the greedy loops of \<open>hungarianAlgorithm\<close>: every assigned column is
  marked as used, and no column is assigned to two rows.
\<close>

definition assignment_ok :: "nat \<Rightarrow> nat option list \<times> nat list \<Rightarrow> bool" where
  "assignment_ok n st \<longleftrightarrow>
     length (fst st) = n \<and>
     (\<forall>i<n. \<forall>j. fst st ! i = Some j \<longrightarrow> j \<in> set (snd st)) \<and>
     (\<forall>i<n. \<forall>i'<n. \<forall>j. fst st ! i = Some j \<and> fst st ! i' = Some j \<longrightarrow> i = i')"

text \<open>The piece of \<open>accepted_of\<close> for one row.\<close>

definition accepted_row ::
  "nat option list \<Rightarrow> Candidate list \<Rightarrow> nat \<Rightarrow> nat \<Rightarrow> (nat \<times> nat \<times> Candidate) list" where
  "accepted_row assignment candidates n2 i =
     (case assignment ! i of
          None \<Rightarrow> []
        | Some j \<Rightarrow>
            if j \<ge> n2 then []
            else
              (case find (\<lambda>c. cand_row c = i \<and> cand_col c = j) candidates of
                 None \<Rightarrow> []
               | Some cand \<Rightarrow> if cand_score cand \<ge> CONFIDENCE_LOW then [(i, j, cand)] else []))"

text \<open>The accepted triples of \<open>matchAnomalies\<close>.\<close>

definition accepted_triples ::
  "NormalizedAnomaly list \<Rightarrow> NormalizedAnomaly list \<Rightarrow> (nat \<times> nat \<times> Candidate) list" where
  "accepted_triples run1' run2' =
     (let r1 = non_reference run1';
          r2 = non_reference run2';
          candidates = candidates_of run1' run2' r1 r2;
          costMatrix = buildCostMatrix
            (map (\<lambda>c. (cand_row c, cand_col c, cand_score c)) candidates) (length r1) (length r2);
          assignment = hungarianAlgorithm costMatrix
      in accepted_of assignment candidates (length r2))"

text \<open>The anomaly references that a list of chains holds, counted with multiplicity.\<close>

definition refs_of :: "MatchArgs list \<Rightarrow> anomaly_ref multiset" where
  "refs_of as = mset (concat (map arg_anomalies as))"

text \<open>The anomalies of the third run that still wait in \<open>run2ToRun3Map\<close>.\<close>

definition pending :: "NormalizedAnomaly list list \<Rightarrow> run3_map \<Rightarrow> anomaly_ref multiset" where
  "pending runs m = (if 2 < length runs then image_mset (\<lambda>kv. (2, fst (snd kv))) (mset m) else {#})"

text \<open>
  What every chain satisfies: its run indices are consecutive runs among the first
  three and are the runs of its anomalies, and its status fits its confidence.
\<close>

definition args_ok :: "MatchArgs \<Rightarrow> bool" where
  "args_ok a \<longleftrightarrow>
     arg_runIndices a \<in> set [[0, 1], [0, 1, 2], [1], [1, 2], [0], [2]] \<and>
     map fst (arg_anomalies a) = arg_runIndices a \<and>
     (arg_status a = matched \<longrightarrow> arg_confidence a \<ge> 0.70) \<and>
     (arg_status a = uncertain \<longrightarrow> 0.40 \<le> arg_confidence a \<and> arg_confidence a < 0.70) \<and>
     (arg_status a = new \<or> arg_status a = missing \<longrightarrow> arg_confidence a = 0)"

text \<open>\<open>run2ToRun3Map\<close> as \<open>matchAcrossRuns\<close> fills it before its loops.\<close>

definition initial_map :: "NormalizedAnomaly list list \<Rightarrow> run3_map" where
  "initial_map runs =
     (case (if length runs \<ge> 3 then Some (matchAnomalies (runs ! 1) (runs ! 2)) else None) of
        None \<Rightarrow> []
      | Some m23 \<Rightarrow>
          fold (\<lambda>pair. AList.update (run1Idx pair) (run2Idx pair, similarity pair))
               (pairs m23) [])"

text \<open>The chains and the map after the loops over the pairs and the new anomalies.\<close>

definition after_loops :: "NormalizedAnomaly list list \<Rightarrow> MatchArgs list \<times> run3_map" where
  "after_loops runs =
     fold (new_step runs) (newAnomalies (matchAnomalies (runs ! 0) (runs ! 1)))
       (fold (pair_step runs) (pairs (matchAnomalies (runs ! 0) (runs ! 1))) ([], initial_map runs))"

text \<open>A chain built from the arguments of its call.\<close>

definition built_from :: "MatchArgs \<Rightarrow> AnomalyMatch \<Rightarrow> bool" where
  "built_from a c \<longleftrightarrow>
     anomalies c = arg_anomalies a \<and> run_indices c = arg_runIndices a \<and>
     confidence c = arg_confidence a \<and> match_status c = arg_status a"

section \<open>Example inputs\<close>

text \<open>Concrete reference points, matched pairs and anomalies for the evaluations below.\<close>

definition ex_ref :: "real \<Rightarrow> real \<Rightarrow> ReferencePoint" where
  "ex_ref d j = \<lparr> ref_id = (0, 0), ref_distance = d, ref_odometer = d, ref_joint_number = j,
     ref_feature_type = girth_weld, ref_run_index = 0 \<rparr>"

definition ex_pair :: "real \<Rightarrow> real \<Rightarrow> MatchedReference" where
  "ex_pair a b = \<lparr> run1 = ex_ref a 0, run2 = ex_ref b 0, distance_offset = b - a,
     odometer_drift = 0 \<rparr>"

definition ex_anomaly :: "real \<Rightarrow> NormalizedAnomaly" where
  "ex_anomaly d = \<lparr> anomaly_id = (1, 0), distance = d, odometer = d, corrected_distance = d,
     joint_number = 0, clock_degrees = 0, canonical_type = metal_loss, depth_percent = 30,
     length_in = 1, width = 1, wall_thickness = 0.375, run_index = 1,
     is_reference_point = False, has_missing_data = False, cleaning_flags = [] \<rparr>"

definition ex_growth :: GrowthRates where
  "ex_growth = \<lparr> depth_growth_rate = Num 0, length_growth_rate = Num 0,
     width_growth_rate = Num 0, time_to_critical = None \<rparr>"

definition ex_row :: "raw_number \<Rightarrow> RawAnomaly" where
  "ex_row d = \<lparr> raw_distance = d, raw_odometer = Missing, raw_joint_number = Numeric 0,
     raw_clock_position = ClockHM 4 30, raw_feature_type = Some ''Metal Loss'',
     raw_depth_percent = Numeric 30, raw_length = Numeric 1, raw_width = Numeric 1,
     raw_wall_thickness = Numeric 0.375 \<rparr>"

definition ex_rows :: "RawAnomaly list" where
  "ex_rows = [ex_row (Numeric 10), ex_row Missing, ex_row (Numeric (-5))]"




text \<open>
  A metal-loss anomaly and a girth weld at a given distance, the similarity of an anomaly
  with itself, and runs made of them.
\<close>

definition ex_defect :: "real \<Rightarrow> NormalizedAnomaly" where
  "ex_defect d = \<lparr> anomaly_id = (0, 0), distance = d, odometer = d, corrected_distance = d,
     joint_number = 0, clock_degrees = 0, canonical_type = metal_loss, depth_percent = 1,
     length_in = 0, width = 0, wall_thickness = 0.375, run_index = 0,
     is_reference_point = False, has_missing_data = False, cleaning_flags = [] \<rparr>"

definition ex_weld :: "real \<Rightarrow> NormalizedAnomaly" where
  "ex_weld d = \<lparr> anomaly_id = (0, 0), distance = d, odometer = d, corrected_distance = d,
     joint_number = 0, clock_degrees = 0, canonical_type = girth_weld, depth_percent = 0,
     length_in = 0, width = 0, wall_thickness = 0.375, run_index = 0,
     is_reference_point = True, has_missing_data = False, cleaning_flags = [] \<rparr>"

definition full_similarity :: SimilarityBreakdown where
  "full_similarity = \<lparr> sim_distance = 1, sim_dimensional = 1, sim_clock = 1,
     sim_feature_type = 1, sim_total = 1 \<rparr>"

definition ex_two_runs :: "NormalizedAnomaly list list" where
  "ex_two_runs = [[ex_weld 0, ex_defect 100], [ex_weld 0, ex_defect 100]]"

definition ex_four_runs :: "NormalizedAnomaly list list" where
  "ex_four_runs = [[ex_defect 100], [ex_defect 100], [ex_defect 100], [ex_defect 100]]"

section \<open>Properties of the distance corrector\<close>

lemma createAlignmentZones_short:
  "length matchedRefs < 2 \<Longrightarrow> createAlignmentZones matchedRefs = []"
  by (simp add: createAlignmentZones_def)

text \<open>
  Claim C2, as the code has it. With exactly one matched reference pair no alignment zone
  is built, and the distance corrector returns the later run as it is: no anomaly is
  translated, \<open>corrected_distance\<close> keeps the value it had.
\<close>

theorem single_pair_returns_run_unchanged:
  assumes "length matchedRefs = 1"
  shows "createAlignmentZones matchedRefs = [] \<and>
         applyDistanceCorrection run (createAlignmentZones matchedRefs) matchedRefs = run"
  using assms by (simp add: createAlignmentZones_def applyDistanceCorrection_def)

theorem single_pair_returns_run_unchanged_witness:
  "length [ex_pair 100 150] = 1 \<and> createAlignmentZones [ex_pair 100 150] = [] \<and>
   applyDistanceCorrection [ex_anomaly 200] (createAlignmentZones [ex_pair 100 150])
     [ex_pair 100 150] = [ex_anomaly 200]"
  using single_pair_returns_run_unchanged [of "[ex_pair 100 150]" "[ex_anomaly 200]"] by auto

text \<open>
  Claim C2 as stated fails: with the single pair (reference 100 ft, later run 150 ft) an
  anomaly at 200 ft keeps the corrected distance 200 ft, and the translation by the
  pair's offset would give 150 ft.
\<close>

theorem single_pair_translation_counterexample:
  "map corrected_distance
     (applyDistanceCorrection [ex_anomaly 200] (createAlignmentZones [ex_pair 100 150])
        [ex_pair 100 150]) = [200] \<and>
   distance (ex_anomaly 200)
     + (ref_distance (run1 (ex_pair 100 150)) - ref_distance (run2 (ex_pair 100 150))) = 150"
  by (simp add: createAlignmentZones_def applyDistanceCorrection_def ex_anomaly_def ex_pair_def
      ex_ref_def)

section \<open>Properties of the priority classifier\<close>

lemma band_cascade:
  assumes "r = (if A then Some p1 else if B then Some p2 else if C then Some p3
                else if D then Some p4 else Some p5)"
    and "level p1 = IMMEDIATE" "level p2 = DAY_60" "level p3 = DAY_180"
    and "level p4 = SCHEDULED" "level p5 = MONITOR"
  shows "\<exists>p. r = Some p \<and>
        (level p = IMMEDIATE \<longleftrightarrow> A) \<and>
        (level p = DAY_60 \<longleftrightarrow> \<not> A \<and> B) \<and>
        (level p = DAY_180 \<longleftrightarrow> \<not> A \<and> \<not> B \<and> C) \<and>
        (level p = SCHEDULED \<longleftrightarrow> \<not> A \<and> \<not> B \<and> \<not> C \<and> D) \<and>
        (level p = MONITOR \<longleftrightarrow> \<not> A \<and> \<not> B \<and> \<not> C \<and> \<not> D)"
  using assms by (cases A; cases B; cases C; cases D) simp_all

text \<open>
  Claim C8. For a chain with at least one anomaly, with \<open>d\<close> the depth of the latest
  anomaly, \<open>g\<close> the absolute depth growth rate and \<open>t\<close> the time to critical, the
  classifier returns the first band of the table whose condition holds: IMMEDIATE iff
  \<open>d \<ge> 80\<close> or \<open>t\<close> is not null and at most 1 or \<open>g \<ge> 8\<close>; otherwise 60-DAY iff \<open>d \<ge> 60\<close> or
  \<open>g \<ge> 5\<close> or \<open>t\<close> is not null and at most 3; otherwise 180-DAY iff \<open>d \<ge> 40\<close> or \<open>g \<ge> 2\<close>;
  otherwise SCHEDULED iff \<open>d \<ge> 20\<close> or \<open>g \<ge> 0.5\<close>; otherwise MONITOR. A comparison with a
  growth rate that is not a number is false.
\<close>

theorem classifyPriority_first_band:
  assumes "chain \<noteq> []"
  shows "\<exists>p. classifyPriority chain gr st = Some p \<and>
    (let d = depth_percent (last chain);
         t = time_to_critical gr;
         g_ge = (\<lambda>c. \<exists>r. depth_growth_rate gr = Num r \<and> \<bar>r\<bar> \<ge> c);
         t_le = (\<lambda>c. \<exists>tv. t = Some tv \<and> tv \<le> c);
         immediate = (d \<ge> 80 \<or> t_le 1 \<or> g_ge 8);
         day60 = (d \<ge> 60 \<or> g_ge 5 \<or> t_le 3);
         day180 = (d \<ge> 40 \<or> g_ge 2);
         scheduled = (d \<ge> 20 \<or> g_ge 0.5)
     in (level p = IMMEDIATE \<longleftrightarrow> immediate) \<and>
        (level p = DAY_60 \<longleftrightarrow> \<not> immediate \<and> day60) \<and>
        (level p = DAY_180 \<longleftrightarrow> \<not> immediate \<and> \<not> day60 \<and> day180) \<and>
        (level p = SCHEDULED \<longleftrightarrow> \<not> immediate \<and> \<not> day60 \<and> \<not> day180 \<and> scheduled) \<and>
        (level p = MONITOR \<longleftrightarrow> \<not> immediate \<and> \<not> day60 \<and> \<not> day180 \<and> \<not> scheduled))"
proof -
  obtain a rest where chain: "chain = a # rest" using assms by (cases chain) auto
  have ge: "\<And>c. num_ge (num_abs (depth_growth_rate gr)) c
      \<longleftrightarrow> (\<exists>r. depth_growth_rate gr = Num r \<and> \<bar>r\<bar> \<ge> c)"
    by (cases "depth_growth_rate gr") (simp_all add: num_ge_def num_abs_def)
  have le: "\<And>c. ttc_le (time_to_critical gr) c
      \<longleftrightarrow> (\<exists>tv. time_to_critical gr = Some tv \<and> tv \<le> c)"
    by (cases "time_to_critical gr") (simp_all add: ttc_le_def)
  show ?thesis
    unfolding chain classifyPriority_def Let_def list.case ge le
    by (rule band_cascade [OF refl]) simp_all
qed

theorem classifyPriority_first_band_witness:
  "[ex_anomaly 0] \<noteq> [] \<and>
   map_option level (classifyPriority [ex_anomaly 0] ex_growth new) = Some SCHEDULED"
proof -
  have ne: "[ex_anomaly 0] \<noteq> []" by simp
  have d: "depth_percent (last [ex_anomaly 0]) = 30" by (simp add: ex_anomaly_def)
  have g: "depth_growth_rate ex_growth = Num 0" "time_to_critical ex_growth = None"
    by (simp_all add: ex_growth_def)
  show ?thesis
    using classifyPriority_first_band [OF ne, of ex_growth new]
    unfolding Let_def d g by auto
qed

section \<open>Properties of the cleaner\<close>

lemma removeDuplicates_fold_set:
  "set (fst (fold (\<lambda>a (unique, seen).
                  let key = dup_key a in
                  if key \<notin> set seen then (unique @ [a], key # seen) else (unique, seen))
               xs (u, seen))) \<subseteq> set u \<union> set xs"
proof (induction xs arbitrary: u seen)
  case Nil
  then show ?case by simp
next
  case (Cons x xs)
  show ?case
  proof (cases "dup_key x \<in> set seen")
    case True
    with Cons.IH [of u seen] show ?thesis by (auto simp: Let_def)
  next
    case False
    with Cons.IH [of "u @ [x]" "dup_key x # seen"] show ?thesis by (auto simp: Let_def)
  qed
qed

lemma removeDuplicates_subset: "set (removeDuplicates data) \<subseteq> set data"
  unfolding removeDuplicates_def using removeDuplicates_fold_set [of data "[]" "[]"] by simp

lemma sorted_append_drop:
  "sorted (map f (u @ x # xs)) \<Longrightarrow> sorted (map f (u @ xs))"
  by (auto simp: sorted_append)

lemma removeDuplicates_fold_sorted:
  "sorted (map distance (u @ xs)) \<Longrightarrow>
   sorted (map distance (fst (fold (\<lambda>a (unique, seen).
                  let key = dup_key a in
                  if key \<notin> set seen then (unique @ [a], key # seen) else (unique, seen))
               xs (u, seen))))"
proof (induction xs arbitrary: u seen)
  case Nil
  then show ?case by simp
next
  case (Cons x xs)
  show ?case
  proof (cases "dup_key x \<in> set seen")
    case True
    have "sorted (map distance (u @ xs))" using Cons.prems by (rule sorted_append_drop)
    from Cons.IH [OF this] True show ?thesis by (simp add: Let_def)
  next
    case False
    have "sorted (map distance ((u @ [x]) @ xs))" using Cons.prems by simp
    from Cons.IH [OF this] False show ?thesis by (simp add: Let_def)
  qed
qed

lemma removeDuplicates_sorted:
  "sorted (map distance data) \<Longrightarrow> sorted (map distance (removeDuplicates data))"
  unfolding removeDuplicates_def using removeDuplicates_fold_sorted [of "[]" data "[]"] by simp

lemma scaled_refl: "scaled a a"
  unfolding scaled_def by (intro conjI exI [of _ 1] exI [of _ "[]"]) simp_all

lemma scaled_trans:
  assumes "scaled a b" and "scaled b c"
  shows "scaled a c"
proof -
  from assms obtain k1 f1 k2 f2 where
    k1: "k1 > 0" "distance b = distance a * k1" "corrected_distance b = corrected_distance a * k1"
    and f1: "cleaning_flags b = cleaning_flags a @ f1" "distance_interpolated \<notin> set f1"
    and k2: "k2 > 0" "distance c = distance b * k2" "corrected_distance c = corrected_distance b * k2"
    and f2: "cleaning_flags c = cleaning_flags b @ f2" "distance_interpolated \<notin> set f2"
    unfolding scaled_def by blast
  show ?thesis unfolding scaled_def
  proof (intro conjI)
    show "\<exists>k>0. distance c = distance a * k \<and> corrected_distance c = corrected_distance a * k"
      using k1 k2 by (intro exI [of _ "k1 * k2"]) simp
    show "\<exists>fl. cleaning_flags c = cleaning_flags a @ fl \<and> distance_interpolated \<notin> set fl"
      using f1 f2 by (intro exI [of _ "f1 @ f2"]) simp
  qed
qed

lemma scaled_meters:
  "scaled a (a\<lparr> distance := distance a * METERS_TO_FEET,
              odometer := odometer a * METERS_TO_FEET,
              corrected_distance := corrected_distance a * METERS_TO_FEET,
              cleaning_flags := cleaning_flags a @ [distance_converted_m_to_ft] \<rparr>)"
  unfolding scaled_def
  by (intro conjI exI [of _ METERS_TO_FEET] exI [of _ "[distance_converted_m_to_ft]"])
     (simp_all add: METERS_TO_FEET_def)

lemma scaled_dimensions:
  "scaled a (a\<lparr> length_in := length_in a * MM_TO_IN, width := width a * MM_TO_IN,
              cleaning_flags := cleaning_flags a @ [dimensions_converted_mm_to_in] \<rparr>)"
  unfolding scaled_def
  by (intro conjI exI [of _ 1] exI [of _ "[dimensions_converted_mm_to_in]"]) simp_all

lemma scaled_wall:
  "scaled a (a\<lparr> wall_thickness := wall_thickness a * MM_TO_IN,
              cleaning_flags := cleaning_flags a @ [wt_converted_mm_to_in] \<rparr>)"
  unfolding scaled_def
  by (intro conjI exI [of _ 1] exI [of _ "[wt_converted_mm_to_in]"]) simp_all

lemma detectAndConvertUnits_map:
  "\<exists>h. detectAndConvertUnits data = map h data \<and> (\<forall>a. scaled a (h a))"
proof -
  define h1 where "h1 = (\<lambda>a::NormalizedAnomaly. a\<lparr> distance := distance a * METERS_TO_FEET,
              odometer := odometer a * METERS_TO_FEET,
              corrected_distance := corrected_distance a * METERS_TO_FEET,
              cleaning_flags := cleaning_flags a @ [distance_converted_m_to_ft] \<rparr>)"
  define h2 where "h2 = (\<lambda>a::NormalizedAnomaly. a\<lparr> length_in := length_in a * MM_TO_IN, width := width a * MM_TO_IN,
              cleaning_flags := cleaning_flags a @ [dimensions_converted_mm_to_in] \<rparr>)"
  define h3 where "h3 = (\<lambda>a::NormalizedAnomaly. a\<lparr> wall_thickness := wall_thickness a * MM_TO_IN,
              cleaning_flags := cleaning_flags a @ [wt_converted_mm_to_in] \<rparr>)"
  define c1 where "c1 \<longleftrightarrow> length (map distance (filter (\<lambda>a. distance a > 0) data)) > 0
                \<and> list_max (map distance (filter (\<lambda>a. distance a > 0) data)) < 100000
                \<and> median (map distance (filter (\<lambda>a. distance a > 0) data)) < 30000"
  define c2 where "c2 \<longleftrightarrow> length (map length_in (filter (\<lambda>a. length_in a > 0) data)) > 0
                \<and> median (map length_in (filter (\<lambda>a. length_in a > 0) data)) > 10"
  define c3 where "c3 \<longleftrightarrow> length (map wall_thickness (filter (\<lambda>a. wall_thickness a > 0) data)) > 0
                \<and> median (map wall_thickness (filter (\<lambda>a. wall_thickness a > 0) data)) > 3"
  define g1 where "g1 = (if c1 then h1 else (\<lambda>a::NormalizedAnomaly. a))"
  define g2 where "g2 = (if c2 then h2 else (\<lambda>a::NormalizedAnomaly. a))"
  define g3 where "g3 = (if c3 then h3 else (\<lambda>a::NormalizedAnomaly. a))"
  have eq: "detectAndConvertUnits data = map g3 (map g2 (map g1 data))"
    unfolding detectAndConvertUnits_def Let_def g1_def g2_def g3_def
      c1_def [symmetric] c2_def [symmetric] c3_def [symmetric]
      h1_def [symmetric] h2_def [symmetric] h3_def [symmetric]
    by (simp add: comp_def)
  have s1: "scaled a (g1 a)" for a unfolding g1_def h1_def using scaled_meters scaled_refl by simp
  have s2: "scaled a (g2 a)" for a unfolding g2_def h2_def using scaled_dimensions scaled_refl by simp
  have s3: "scaled a (g3 a)" for a unfolding g3_def h3_def using scaled_wall scaled_refl by simp
  have "scaled a (g3 (g2 (g1 a)))" for a
    using scaled_trans [OF scaled_trans [OF s1 s2] s3] .
  with eq show ?thesis by (intro exI [of _ "\<lambda>a. g3 (g2 (g1 a))"]) (simp add: comp_def)
qed


lemma scaled_not_interpolated: "scaled a b \<Longrightarrow> not_interpolated a \<Longrightarrow> not_interpolated b"
  unfolding scaled_def not_interpolated_def by auto

lemma scaled_flags:
  assumes "distance b = distance a" and "corrected_distance b = corrected_distance a"
    and "cleaning_flags b = cleaning_flags a @ fl" and "distance_interpolated \<notin> set fl"
  shows "scaled a b"
  unfolding scaled_def using assms by (intro conjI exI [of _ 1] exI [of _ fl]) simp_all

lemma detectAndConvertUnits_distance:
  "\<exists>c>0. map distance (detectAndConvertUnits data) = map (\<lambda>a. distance a * c) data"
proof -
  define c1 where "c1 \<longleftrightarrow> length (map distance (filter (\<lambda>a. distance a > 0) data)) > 0
                \<and> list_max (map distance (filter (\<lambda>a. distance a > 0) data)) < 100000
                \<and> median (map distance (filter (\<lambda>a. distance a > 0) data)) < 30000"
  have "map distance (detectAndConvertUnits data)
        = map (\<lambda>a. distance a * (if c1 then METERS_TO_FEET else 1)) data"
    unfolding detectAndConvertUnits_def Let_def c1_def [symmetric]
    by (simp add: comp_def)
  moreover have "(if c1 then METERS_TO_FEET else 1) > 0" by (simp add: METERS_TO_FEET_def)
  ultimately show ?thesis by blast
qed

lemma sorted_scale:
  assumes "sorted (map f xs)" and "(c::real) > 0"
  shows "sorted (map (\<lambda>x. f x * c) xs)"
  using assms by (induction xs) auto

lemma detectAndConvertUnits_sorted:
  assumes "sorted (map distance data)"
  shows "sorted (map distance (detectAndConvertUnits data))"
proof -
  obtain c where "c > 0" "map distance (detectAndConvertUnits data) = map (\<lambda>a. distance a * c) data"
    using detectAndConvertUnits_distance by blast
  with sorted_scale [OF assms, of c] show ?thesis by simp
qed

lemma clamp_one_scaled: "scaled a (clamp_one a)"
proof -
  have "\<exists>fl. cleaning_flags (clamp_one a) = cleaning_flags a @ fl \<and> distance_interpolated \<notin> set fl"
    unfolding clamp_one_def Let_def by (simp split: if_splits prod.splits)
  then obtain fl where "cleaning_flags (clamp_one a) = cleaning_flags a @ fl"
    "distance_interpolated \<notin> set fl" by blast
  moreover have "distance (clamp_one a) = distance a" "corrected_distance (clamp_one a) = corrected_distance a"
    unfolding clamp_one_def Let_def by (simp_all split: prod.splits)
  ultimately show ?thesis by (intro scaled_flags)
qed

lemma clampOutliers_distance: "map distance (clampOutliers data) = map distance data"
proof -
  have "distance (clamp_one a) = distance a" for a
    unfolding clamp_one_def Let_def by (simp split: prod.splits)
  then show ?thesis by (simp add: clampOutliers_def)
qed


lemma interpolate_one_sorted:
  assumes "sorted (map distance data)" and "idx < length data"
  shows "scaled (data ! idx) (interpolate_one data idx) \<or>
         (\<exists>fl. interpolate_one data idx = (data ! idx)\<lparr> odometer := distance (data ! idx),
                 cleaning_flags := cleaning_flags (data ! idx) @ [odometer_from_distance] \<rparr>)"
proof -
  have guard: "\<not> (distance (data ! idx) = 0 \<and> idx > 0 \<and> idx < length data - 1
            \<and> distance (data ! (idx - 1)) > 0 \<and> distance (data ! (idx + 1)) > 0)"
  proof
    assume g: "distance (data ! idx) = 0 \<and> idx > 0 \<and> idx < length data - 1
            \<and> distance (data ! (idx - 1)) > 0 \<and> distance (data ! (idx + 1)) > 0"
    have "map distance data ! (idx - 1) \<le> map distance data ! idx"
      using assms g by (intro sorted_nth_mono) auto
    with g assms show False by simp
  qed
  show ?thesis
  proof (cases "odometer (data ! idx) = 0 \<and> distance (data ! idx) > 0")
    case True
    with guard show ?thesis unfolding interpolate_one_def Let_def by auto
  next
    case False
    with guard have "interpolate_one data idx = (data ! idx)\<lparr> cleaning_flags := cleaning_flags (data ! idx) \<rparr>"
      unfolding interpolate_one_def Let_def by auto
    then have "interpolate_one data idx = data ! idx" by simp
    then show ?thesis using scaled_refl by simp
  qed
qed

lemma interpolate_one_not_interpolated:
  assumes "sorted (map distance data)" and "idx < length data" and "not_interpolated (data ! idx)"
  shows "not_interpolated (interpolate_one data idx)"
  using interpolate_one_sorted [OF assms(1,2)] assms(3)
  by (auto simp: not_interpolated_def dest: scaled_not_interpolated [unfolded not_interpolated_def])

lemma scaled_one_flag:
  "distance_interpolated \<noteq> f \<Longrightarrow> scaled a (a\<lparr> cleaning_flags := cleaning_flags a @ [f] \<rparr>)"
  by (rule scaled_flags [where fl = "[f]"]) simp_all

lemma monotonic_one_scaled: "scaled (data ! idx) (monotonic_one data idx)"
proof (cases "idx = 0")
  case True
  then show ?thesis by (simp add: monotonic_one_def scaled_refl)
next
  case False
  show ?thesis
  proof (cases "distance (data ! idx) < distance (data ! (idx - 1)) \<and> distance (data ! idx) > 0
                \<and> distance (data ! (idx - 1)) > 0")
    case jump: True
    show ?thesis
    proof (cases "distance (data ! (idx - 1)) - distance (data ! idx) < 10")
      case True
      with jump False show ?thesis
        unfolding monotonic_one_def Let_def by (simp add: scaled_one_flag)
    next
      case big: False
      with jump False show ?thesis
        unfolding monotonic_one_def Let_def by (simp add: scaled_one_flag)
    qed
  next
    case nojump: False
    with False show ?thesis unfolding monotonic_one_def Let_def by (auto simp: scaled_refl)
  qed
qed

lemma crossRunWallThickness_map:
  "\<exists>h. crossRunWallThickness data others = map h data \<and> (\<forall>a. scaled a (h a))"
proof (cases "length (map wall_thickness (filter (\<lambda>a. wall_thickness a > 0) (concat others))) = 0")
  case True
  then have "crossRunWallThickness data others = map (\<lambda>a. a) data"
    unfolding crossRunWallThickness_def Let_def by simp
  then show ?thesis using scaled_refl by blast
next
  case False
  define med where "med = median (map wall_thickness (filter (\<lambda>a. wall_thickness a > 0) (concat others)))"
  define h where "h = (\<lambda>a::NormalizedAnomaly.
                     if wall_thickness a > 0
                     then
                       (let deviation = \<bar>wall_thickness a - med\<bar> / med
                        in if deviation > 0.3
                           then a\<lparr> cleaning_flags := cleaning_flags a
                                    @ [wt_cross_run_deviation (toFixed (deviation * 100) 0)] \<rparr>
                           else a)
                     else a)"
  from False have "crossRunWallThickness data others = map h data"
    unfolding crossRunWallThickness_def Let_def h_def med_def by simp
  moreover have "scaled a (h a)" for a
    unfolding h_def Let_def by (simp add: scaled_refl scaled_one_flag)
  ultimately show ?thesis by blast
qed

lemma flagZeroDimensions_map:
  "\<exists>h. flagZeroDimensions data = map h data \<and> (\<forall>a. scaled a (h a))"
proof -
  define h where "h = (\<lambda>a::NormalizedAnomaly.
            if is_reference_point a then a
            else if length_in a = 0 \<and> width a = 0 \<and> depth_percent a = 0
            then a\<lparr> cleaning_flags := cleaning_flags a @ [zero_dimensions],
                    has_missing_data := True \<rparr>
            else a)"
  have "flagZeroDimensions data = map h data" unfolding flagZeroDimensions_def h_def by simp
  moreover have "scaled a (h a)" for a
    unfolding h_def
    by (auto simp: scaled_refl intro!: scaled_flags [where fl = "[zero_dimensions]"])
  ultimately show ?thesis by blast
qed

subsection \<open>The whole cleaner\<close>


lemma map_scaled_not_interpolated:
  assumes "ys = map h xs" and "\<forall>a. scaled a (h a)" and "\<forall>a \<in> set xs. not_interpolated a"
  shows "\<forall>b \<in> set ys. not_interpolated b"
proof
  fix b assume "b \<in> set ys"
  then obtain a where "a \<in> set xs" "b = h a" using assms(1) by auto
  with assms(2,3) show "not_interpolated b" using scaled_not_interpolated [of a b] by simp
qed


lemma cleanData_not_interpolated:
  assumes "sorted (map distance run)" and "\<forall>a \<in> set run. not_interpolated a"
  shows "\<forall>b \<in> set (cleanData run i y others). not_interpolated b"
proof -
  define d1 where "d1 = removeDuplicates run"
  define d2 where "d2 = detectAndConvertUnits d1"
  define d3 where "d3 = clampOutliers d2"
  define d4 where "d4 = interpolateMissing d3"
  define d5 where "d5 = enforceMonotonicity d4"
  define d6 where "d6 = (case others of None \<Rightarrow> d5
                   | Some os \<Rightarrow> if length os > 0 then crossRunWallThickness d5 os else d5)"
  have c: "cleanData run i y others = flagZeroDimensions d6"
    unfolding cleanData_def Let_def d1_def d2_def d3_def d4_def d5_def d6_def ..
  have s1: "sorted (map distance d1)" unfolding d1_def using assms(1) by (rule removeDuplicates_sorted)
  have s2: "sorted (map distance d2)" unfolding d2_def using s1 by (rule detectAndConvertUnits_sorted)
  have s3: "sorted (map distance d3)" unfolding d3_def using s2 by (simp add: clampOutliers_distance)
  have a1: "\<forall>a \<in> set d1. not_interpolated a"
    using assms(2) removeDuplicates_subset [of run] unfolding d1_def by blast
  have a2: "\<forall>a \<in> set d2. not_interpolated a"
    using a1 detectAndConvertUnits_map [of d1] map_scaled_not_interpolated [of d2 _ d1] unfolding d2_def
    by blast
  have a3: "\<forall>a \<in> set d3. not_interpolated a"
    using a2 unfolding d3_def clampOutliers_def
    by (auto intro: scaled_not_interpolated [OF clamp_one_scaled])
  have a4: "\<forall>a \<in> set d4. not_interpolated a"
    using a3 s3 unfolding d4_def interpolateMissing_def
    by (auto intro!: interpolate_one_not_interpolated)
  have a5: "\<forall>a \<in> set d5. not_interpolated a"
    using a4 unfolding d5_def enforceMonotonicity_def
    by (auto intro!: scaled_not_interpolated [OF monotonic_one_scaled])
  have cr: "\<forall>a \<in> set (crossRunWallThickness d5 os). not_interpolated a" for os
    using a5 crossRunWallThickness_map [of d5 os] map_scaled_not_interpolated [of _ _ d5] by blast
  have a6: "\<forall>a \<in> set d6. not_interpolated a"
    unfolding d6_def using a5 cr by (simp split: option.splits)
  show ?thesis
    unfolding c using a6 flagZeroDimensions_map [of d6] map_scaled_not_interpolated [of _ _ d6] by blast
qed

lemma normalize_row_fresh:
  "aligned (normalize_row k idx r) \<and> not_interpolated (normalize_row k idx r)"
  by (simp add: normalize_row_def Let_def aligned_def not_interpolated_def)

lemma normalizeAnomalies_fresh:
  "a \<in> set (normalizeAnomalies rows k) \<Longrightarrow> aligned a \<and> not_interpolated a"
  unfolding normalizeAnomalies_def using normalize_row_fresh by auto

lemma normalizeAnomalies_sorted: "sorted (map distance (normalizeAnomalies rows k))"
  unfolding normalizeAnomalies_def by simp

text \<open>
  Claim C10. Whatever the raw rows, the normalizer followed by the cleaner attaches the
  flag \<open>distance_interpolated\<close> to no anomaly: the run reaches the interpolation pass in
  ascending order of distance, so an anomaly at distance 0 has no predecessor at a
  positive distance.
\<close>

theorem never_distance_interpolated:
  "\<forall>a \<in> set (cleanData (normalizeAnomalies rows k) i y others).
     distance_interpolated \<notin> set (cleaning_flags a)"
  using cleanData_not_interpolated [OF normalizeAnomalies_sorted, of rows k i y others]
    normalizeAnomalies_fresh [of _ rows k]
  unfolding not_interpolated_def by blast

theorem never_distance_interpolated_witness:
  "map distance (normalizeAnomalies ex_rows 0) = [- 5, 0, 10] \<and>
   length (cleanData (normalizeAnomalies ex_rows 0) 0 2015 None) = 3 \<and>
   list_all (\<lambda>a. distance_interpolated \<notin> set (cleaning_flags a))
     (cleanData (normalizeAnomalies ex_rows 0) 0 2015 None)"
proof -
  have d: "map distance (normalizeAnomalies ex_rows 0) = [- 5, 0, 10]" by code_simp
  have n: "length (cleanData (normalizeAnomalies ex_rows 0) 0 2015 None) = 3" by code_simp
  from never_distance_interpolated [of ex_rows 0 0 2015 None] d n show ?thesis
    unfolding list_all_iff by (intro conjI)
qed

section \<open>Monotonicity, continuity and identity of the distance corrector\<close>


















section \<open>Properties of the matcher\<close>

subsection \<open>The greedy assignment is injective\<close>

lemma fold_invariant:
  assumes "P s" and "\<And>x s. x \<in> set xs \<Longrightarrow> P s \<Longrightarrow> P (f x s)"
  shows "P (fold f xs s)"
  using assms by (induction xs arbitrary: s) simp_all

lemma best_column_unused:
  assumes "best_column matrix m usedCols i = Some (j, c)"
  shows "j \<notin> set usedCols"
proof -
  let ?P = "\<lambda>best. \<forall>j c. best = Some (j, c) \<longrightarrow> j \<notin> set usedCols"
  have "?P (best_column matrix m usedCols i)"
    unfolding best_column_def
  proof (rule fold_invariant)
    show "?P None" by simp
  next
    fix x :: nat and s :: "(nat \<times> real) option"
    assume "?P s"
    then show "?P (if x \<in> set usedCols then s
             else if (case s of None \<Rightarrow> True | Some (bestJ, bestCost) \<Rightarrow> matrix ! i ! x < bestCost)
             then Some (x, matrix ! i ! x) else s)"
      by (cases "x \<in> set usedCols") simp_all
  qed
  with assms show ?thesis by blast
qed

lemma assign_row_ok:
  assumes "assignment_ok n st" and "i < n"
  shows "assignment_ok n (assign_row matrix m i st)"
proof -
  obtain asg used where st: "st = (asg, used)" by (cases st)
  show ?thesis
  proof (cases "asg ! i \<noteq> None")
    case True
    with assms st show ?thesis by (simp add: assign_row_def)
  next
    case free: False
    show ?thesis
    proof (cases "best_column matrix m used i")
      case None
      with assms st free show ?thesis by (simp add: assign_row_def)
    next
      case (Some b)
      obtain j c where b: "b = (j, c)" by (cases b)
      from Some b have fresh: "j \<notin> set used" using best_column_unused by blast
      from Some b free st have eq: "assign_row matrix m i st = (asg[i := Some j], j # used)"
        by (simp add: assign_row_def)
      from assms st have len: "length asg = n"
        and used: "\<forall>k<n. \<forall>l. asg ! k = Some l \<longrightarrow> l \<in> set used"
        and inj: "\<forall>k<n. \<forall>k'<n. \<forall>l. asg ! k = Some l \<and> asg ! k' = Some l \<longrightarrow> k = k'"
        by (simp_all add: assignment_ok_def)
      have "length (asg[i := Some j]) = n" using len by simp
      moreover have "\<forall>k<n. \<forall>l. asg[i := Some j] ! k = Some l \<longrightarrow> l \<in> set (j # used)"
      proof (intro allI impI)
        fix k l assume k: "k < n" and a: "asg[i := Some j] ! k = Some l"
        show "l \<in> set (j # used)"
        proof (cases "k = i")
          case True
          with a len assms(2) show ?thesis by simp
        next
          case False
          with a have "asg ! k = Some l" by simp
          with used k show ?thesis by simp
        qed
      qed
      moreover have "\<forall>k<n. \<forall>k'<n. \<forall>l.
          asg[i := Some j] ! k = Some l \<and> asg[i := Some j] ! k' = Some l \<longrightarrow> k = k'"
      proof (intro allI impI)
        fix k k' l
        assume k: "k < n" and k': "k' < n"
          and a: "asg[i := Some j] ! k = Some l \<and> asg[i := Some j] ! k' = Some l"
        show "k = k'"
        proof (cases "k = i")
          case ki: True
          show ?thesis
          proof (cases "k' = i")
            case True with ki show ?thesis by simp
          next
            case False
            with a ki len assms(2) have "l = j" "asg ! k' = Some l" by (simp_all add: nth_list_update)
            with used k' fresh show ?thesis by blast
          qed
        next
          case kni: False
          show ?thesis
          proof (cases "k' = i")
            case True
            with a kni len assms(2) have "l = j" "asg ! k = Some l" by (simp_all add: nth_list_update)
            with used k fresh show ?thesis by blast
          next
            case False
            with a kni have "asg ! k = Some l \<and> asg ! k' = Some l" by (simp add: nth_list_update)
            with inj k k' show ?thesis by blast
          qed
        qed
      qed
      ultimately show ?thesis unfolding eq assignment_ok_def by simp
    qed
  qed
qed

lemma assign_rows_ok:
  assumes "assignment_ok n st" and "\<forall>i \<in> set rows. i < n"
  shows "assignment_ok n (fold (assign_row matrix m) rows st)"
  using assms
proof (induction rows arbitrary: st)
  case Nil
  then show ?case by simp
next
  case (Cons i rows)
  from Cons.prems have "assignment_ok n (assign_row matrix m i st)"
    by (intro assign_row_ok) simp_all
  from Cons.IH [OF this] Cons.prems show ?case by simp
qed

lemma assign_passes_ok:
  assumes "assignment_ok n st"
  shows "assignment_ok n (fold (\<lambda>pass st. fold (assign_row matrix m) [0..<n] st) passes st)"
  using assms
proof (induction passes arbitrary: st)
  case Nil
  then show ?case by simp
next
  case (Cons p passes)
  from Cons.prems have "assignment_ok n (fold (assign_row matrix m) [0..<n] st)"
    by (intro assign_rows_ok) simp_all
  from Cons.IH [OF this] show ?case by simp
qed

lemma hungarianAlgorithm_ok:
  "length (hungarianAlgorithm costMatrix) \<le> length costMatrix \<and>
   (\<forall>i < length (hungarianAlgorithm costMatrix). \<forall>i' < length (hungarianAlgorithm costMatrix). \<forall>j.
      hungarianAlgorithm costMatrix ! i = Some j \<and> hungarianAlgorithm costMatrix ! i' = Some j
      \<longrightarrow> i = i')"
proof (cases "length costMatrix = 0 \<or> (case costMatrix of [] \<Rightarrow> 0 | row0 # _ \<Rightarrow> length row0) = 0")
  case True
  then have "hungarianAlgorithm costMatrix = []"
    unfolding hungarianAlgorithm_def Let_def by (simp only: if_True)
  then show ?thesis by simp
next
  case False
  define n where "n = length costMatrix"
  have init: "assignment_ok n (replicate n None, [])" by (simp add: assignment_ok_def)
  have "\<exists>matrix m. hungarianAlgorithm costMatrix
       = fst (fold (\<lambda>pass st. fold (assign_row matrix m) [0..<n] st) [0..<3] (replicate n None, []))"
    unfolding hungarianAlgorithm_def Let_def n_def
    by (simp only: False if_False) (intro exI, rule refl)
  then obtain matrix m where
    "hungarianAlgorithm costMatrix
       = fst (fold (\<lambda>pass st. fold (assign_row matrix m) [0..<n] st) [0..<3] (replicate n None, []))"
    by blast
  moreover have "assignment_ok n
      (fold (\<lambda>pass st. fold (assign_row matrix m) [0..<n] st) [0..<3] (replicate n None, []))"
    using init by (rule assign_passes_ok)
  ultimately show ?thesis unfolding assignment_ok_def n_def by simp
qed

subsection \<open>The accepted assignments\<close>

lemma length_buildCostMatrix: "length (buildCostMatrix sims nRows nCols) = nRows"
  unfolding buildCostMatrix_def
  by (rule fold_invariant [where P = "\<lambda>m. length m = nRows"]) (simp_all split: prod.splits)

lemma accepted_of_rows:
  "accepted_of asg cands n2 = concat (map (accepted_row asg cands n2) [0..<length asg])"
  unfolding accepted_of_def accepted_row_def ..

lemma accepted_row_cases:
  "accepted_row asg cands n2 i = [] \<or>
   (\<exists>j c. accepted_row asg cands n2 i = [(i, j, c)] \<and> asg ! i = Some j \<and> j < n2
          \<and> c \<in> set cands \<and> cand_score c \<ge> CONFIDENCE_LOW)"
proof (cases "asg ! i")
  case None
  then show ?thesis by (simp add: accepted_row_def)
next
  case (Some j)
  show ?thesis
  proof (cases "j \<ge> n2")
    case True
    with Some show ?thesis by (simp add: accepted_row_def)
  next
    case small: False
    show ?thesis
    proof (cases "find (\<lambda>c. cand_row c = i \<and> cand_col c = j) cands")
      case None
      with Some small show ?thesis by (simp add: accepted_row_def)
    next
      case found: (Some c)
      then have "c \<in> set cands" by (auto simp: find_Some_iff)
      with Some small found show ?thesis by (simp add: accepted_row_def)
    qed
  qed
qed

lemma concat_rows_fst:
  assumes "\<forall>i. g i = [] \<or> (\<exists>y. g i = [(i, y)])"
  shows "map fst (concat (map g xs)) = filter (\<lambda>i. g i \<noteq> []) xs"
proof (induction xs)
  case Nil
  then show ?case by simp
next
  case (Cons x xs)
  from assms have "g x = [] \<or> (\<exists>y. g x = [(x, y)])" by blast
  with Cons show ?case by auto
qed

lemma accepted_rows_fst:
  "map fst (accepted_of asg cands n2)
     = filter (\<lambda>i. accepted_row asg cands n2 i \<noteq> []) [0..<length asg]"
  unfolding accepted_of_rows
proof (rule concat_rows_fst)
  show "\<forall>i. accepted_row asg cands n2 i = [] \<or> (\<exists>y. accepted_row asg cands n2 i = [(i, y)])"
    using accepted_row_cases [of asg cands n2] by (metis)
qed

lemma accepted_mem:
  assumes "(i, j, c) \<in> set (accepted_of asg cands n2)"
  shows "i < length asg \<and> asg ! i = Some j \<and> j < n2 \<and> c \<in> set cands
         \<and> cand_score c \<ge> CONFIDENCE_LOW"
proof -
  from assms obtain k where k: "k < length asg" and m: "(i, j, c) \<in> set (accepted_row asg cands n2 k)"
    unfolding accepted_of_rows by auto
  from accepted_row_cases [of asg cands n2 k] m
  obtain j' c' where "accepted_row asg cands n2 k = [(k, j', c')]" "asg ! k = Some j'" "j' < n2"
    "c' \<in> set cands" "cand_score c' \<ge> CONFIDENCE_LOW" by auto
  with m k show ?thesis by simp
qed

lemma accepted_rows_distinct: "distinct (map fst (accepted_of asg cands n2))"
  unfolding accepted_rows_fst by simp

lemma accepted_cols_distinct:
  assumes inj: "\<forall>i < length asg. \<forall>i' < length asg. \<forall>j.
                  asg ! i = Some j \<and> asg ! i' = Some j \<longrightarrow> i = i'"
  shows "distinct (map (\<lambda>(i, j, c). j) (accepted_of asg cands n2))"
proof -
  let ?acc = "accepted_of asg cands n2"
  have d: "distinct ?acc" using accepted_rows_distinct [of asg cands n2] by (simp add: distinct_map)
  have "inj_on (\<lambda>(i, j, c). j) (set ?acc)"
  proof (rule inj_onI)
    fix x y assume x: "x \<in> set ?acc" and y: "y \<in> set ?acc"
      and e: "(\<lambda>(i, j, c). j) x = (\<lambda>(i, j, c). j) y"
    obtain i j c where xe: "x = (i, j, c)" by (cases x)
    obtain i' j' c' where ye: "y = (i', j', c')" by (cases y)
    from e xe ye have jj: "j = j'" by simp
    from accepted_mem x xe have xi: "i < length asg" "asg ! i = Some j" by blast+
    from accepted_mem y ye have yi: "i' < length asg" "asg ! i' = Some j'" by blast+
    from inj xi yi jj have "i = i'" by blast
    then have "fst x = fst y" using xe ye by simp
    moreover have "inj_on fst (set ?acc)"
      using accepted_rows_distinct [of asg cands n2] by (simp add: distinct_map)
    ultimately show "x = y" using x y by (auto dest: inj_onD)
  qed
  with d show ?thesis by (simp add: distinct_map)
qed

subsection \<open>Matched and unmatched indices partition a run\<close>

lemma matched_unmatched_partition:
  assumes "distinct S" and "set S \<subseteq> {0..<n}"
  shows "mset (map f S) + mset (map f (filter (\<lambda>i. i \<notin> set S) [0..<n])) = mset (map f [0..<n])"
proof -
  have "set S = set (filter (\<lambda>i. i \<in> set S) [0..<n])" using assms(2) by auto
  then have "mset S = mset (filter (\<lambda>i. i \<in> set S) [0..<n])"
    using assms(1) by (intro iffD1 [OF set_eq_iff_mset_eq_distinct]) simp_all
  then have "mset S + mset (filter (\<lambda>i. i \<notin> set S) [0..<n]) = mset [0..<n]"
    by (simp del: mset_upt)
  then have "image_mset f (mset S + mset (filter (\<lambda>i. i \<notin> set S) [0..<n]))
             = image_mset f (mset [0..<n])" by (rule arg_cong)
  then show ?thesis by (simp del: mset_upt)
qed

lemma candidates_of_score:
  assumes "c \<in> set (candidates_of run1' run2' r1 r2)"
  shows "cand_score c = sim_total (cand_breakdown c)"
  using assms unfolding candidates_of_def Let_def by (auto split: if_splits)

lemma matchAnomalies_fields:
  "pairs (matchAnomalies run1' run2')
     = map (\<lambda>(i, j, c). \<lparr> run1Idx = non_reference run1' ! i, run2Idx = non_reference run2' ! j,
                            similarity = cand_breakdown c \<rparr>) (accepted_triples run1' run2')"
  "newAnomalies (matchAnomalies run1' run2')
     = map (\<lambda>j. non_reference run2' ! j)
         (filter (\<lambda>j. j \<notin> set (map (\<lambda>(i, j, c). j) (accepted_triples run1' run2')))
            [0..<length (non_reference run2')])"
  "missingAnomalies (matchAnomalies run1' run2')
     = map (\<lambda>i. non_reference run1' ! i)
         (filter (\<lambda>i. i \<notin> set (map (\<lambda>(i, j, c). i) (accepted_triples run1' run2')))
            [0..<length (non_reference run1')])"
  unfolding matchAnomalies_def accepted_triples_def Let_def
  by (simp_all only: MatchResult.select_convs)

lemma accepted_triples_props:
  "distinct (map (\<lambda>(i, j, c). i) (accepted_triples run1' run2'))"
  "distinct (map (\<lambda>(i, j, c). j) (accepted_triples run1' run2'))"
  "(i, j, c) \<in> set (accepted_triples run1' run2') \<Longrightarrow>
     i < length (non_reference run1') \<and> j < length (non_reference run2')
     \<and> sim_total (cand_breakdown c) \<ge> CONFIDENCE_LOW"
proof -
  define r1 where "r1 = non_reference run1'"
  define r2 where "r2 = non_reference run2'"
  define cands where "cands = candidates_of run1' run2' r1 r2"
  define cm where "cm = buildCostMatrix
            (map (\<lambda>c. (cand_row c, cand_col c, cand_score c)) cands) (length r1) (length r2)"
  define asg where "asg = hungarianAlgorithm cm"
  have acc: "accepted_triples run1' run2' = accepted_of asg cands (length r2)"
    unfolding accepted_triples_def Let_def asg_def cm_def cands_def r1_def r2_def ..
  have "length cm = length r1" unfolding cm_def by (rule length_buildCostMatrix)
  moreover have "length asg \<le> length cm"
    unfolding asg_def using hungarianAlgorithm_ok [of cm] by (rule conjunct1)
  ultimately have len: "length asg \<le> length r1" by simp
  have inj: "\<forall>i < length asg. \<forall>i' < length asg. \<forall>j.
                  asg ! i = Some j \<and> asg ! i' = Some j \<longrightarrow> i = i'"
    unfolding asg_def using hungarianAlgorithm_ok [of cm] by (rule conjunct2)
  have fst_eq: "(\<lambda>(i, j, c). i) = (fst :: nat \<times> nat \<times> Candidate \<Rightarrow> nat)" by auto
  show "distinct (map (\<lambda>(i, j, c). i) (accepted_triples run1' run2'))"
    unfolding acc fst_eq by (rule accepted_rows_distinct)
  show "distinct (map (\<lambda>(i, j, c). j) (accepted_triples run1' run2'))"
    unfolding acc using inj by (rule accepted_cols_distinct)
  assume "(i, j, c) \<in> set (accepted_triples run1' run2')"
  then have "(i, j, c) \<in> set (accepted_of asg cands (length r2))" by (simp only: acc)
  from accepted_mem [OF this] have m: "i < length asg" "j < length r2" "c \<in> set cands"
    "cand_score c \<ge> CONFIDENCE_LOW" by simp_all
  from \<open>c \<in> set cands\<close> have "cand_score c = sim_total (cand_breakdown c)"
    unfolding cands_def by (rule candidates_of_score)
  with m len show "i < length (non_reference run1') \<and> j < length (non_reference run2')
     \<and> sim_total (cand_breakdown c) \<ge> CONFIDENCE_LOW"
    unfolding r1_def r2_def by simp
qed

lemma matchAnomalies_partition:
  "mset (map run1Idx (pairs (matchAnomalies run1' run2')))
     + mset (missingAnomalies (matchAnomalies run1' run2')) = mset (non_reference run1')"
  "mset (map run2Idx (pairs (matchAnomalies run1' run2')))
     + mset (newAnomalies (matchAnomalies run1' run2')) = mset (non_reference run2')"
  "\<forall>p \<in> set (pairs (matchAnomalies run1' run2')). sim_total (similarity p) \<ge> CONFIDENCE_LOW"
proof -
  let ?r1 = "non_reference run1'" and ?r2 = "non_reference run2'"
  let ?acc = "accepted_triples run1' run2'"
  note p = matchAnomalies_fields(1) [of run1' run2']
  note nw = matchAnomalies_fields(2) [of run1' run2']
  note ms = matchAnomalies_fields(3) [of run1' run2']
  note d1 = accepted_triples_props(1) [of run1' run2']
  note d2 = accepted_triples_props(2) [of run1' run2']
  have s1: "set (map (\<lambda>(i, j, c). i) ?acc) \<subseteq> {0..<length ?r1}"
  proof
    fix k assume "k \<in> set (map (\<lambda>(i, j, c). i) ?acc)"
    then obtain x where x: "x \<in> set ?acc" and k: "k = (case x of (i, j, c) \<Rightarrow> i)" by auto
    obtain i j c where xe: "x = (i, j, c)" by (cases x)
    from accepted_triples_props(3) x xe have "i < length ?r1" by blast
    with k xe show "k \<in> {0..<length ?r1}" by simp
  qed
  have s2: "set (map (\<lambda>(i, j, c). j) ?acc) \<subseteq> {0..<length ?r2}"
  proof
    fix k assume "k \<in> set (map (\<lambda>(i, j, c). j) ?acc)"
    then obtain x where x: "x \<in> set ?acc" and k: "k = (case x of (i, j, c) \<Rightarrow> j)" by auto
    obtain i j c where xe: "x = (i, j, c)" by (cases x)
    from accepted_triples_props(3) x xe have "j < length ?r2" by blast
    with k xe show "k \<in> {0..<length ?r2}" by simp
  qed
  have e1: "map run1Idx (pairs (matchAnomalies run1' run2'))
            = map (\<lambda>i. ?r1 ! i) (map (\<lambda>(i, j, c). i) ?acc)"
    unfolding p by (simp add: comp_def split_def)
  have e2: "map run2Idx (pairs (matchAnomalies run1' run2'))
            = map (\<lambda>j. ?r2 ! j) (map (\<lambda>(i, j, c). j) ?acc)"
    unfolding p by (simp add: comp_def split_def)
  show "mset (map run1Idx (pairs (matchAnomalies run1' run2')))
     + mset (missingAnomalies (matchAnomalies run1' run2')) = mset ?r1"
    unfolding e1 ms using matched_unmatched_partition [OF d1 s1, of "\<lambda>i. ?r1 ! i"]
    by (simp only: map_nth)
  show "mset (map run2Idx (pairs (matchAnomalies run1' run2')))
     + mset (newAnomalies (matchAnomalies run1' run2')) = mset ?r2"
    unfolding e2 nw using matched_unmatched_partition [OF d2 s2, of "\<lambda>j. ?r2 ! j"]
    by (simp only: map_nth)
  show "\<forall>p \<in> set (pairs (matchAnomalies run1' run2')). sim_total (similarity p) \<ge> CONFIDENCE_LOW"
  proof
    fix q assume "q \<in> set (pairs (matchAnomalies run1' run2'))"
    then obtain x where x: "x \<in> set ?acc"
      and q: "q = (case x of (i, j, c) \<Rightarrow> \<lparr> run1Idx = ?r1 ! i, run2Idx = ?r2 ! j,
                                    similarity = cand_breakdown c \<rparr>)"
      unfolding p by auto
    obtain i j c where xe: "x = (i, j, c)" by (cases x)
    from accepted_triples_props(3) x xe have "sim_total (cand_breakdown c) \<ge> CONFIDENCE_LOW" by blast
    with q xe show "sim_total (similarity q) \<ge> CONFIDENCE_LOW" by simp
  qed
qed

lemma non_reference_distinct: "distinct (non_reference run)"
  by (simp add: non_reference_def)

lemma non_reference_mem:
  "k \<in> set (non_reference run) \<longleftrightarrow> k < length run \<and> \<not> is_reference_point (run ! k)"
  by (auto simp: non_reference_def)

subsection \<open>The anomalies that the chains hold\<close>

lemma refs_of_append: "refs_of (xs @ ys) = refs_of xs + refs_of ys"
  by (simp add: refs_of_def)

lemma refs_of_Nil: "refs_of [] = {#}"
  by (simp add: refs_of_def)

lemma mset_delete:
  assumes "distinct (map fst m)" and "map_of m k = Some v"
  shows "mset m = add_mset (k, v) (mset (AList.delete k m))"
  using assms
proof (induction m)
  case Nil
  then show ?case by simp
next
  case (Cons x m)
  obtain k' v' where x: "x = (k', v')" by (cases x)
  show ?case
  proof (cases "k' = k")
    case True
    with Cons.prems x have v: "v' = v" by simp
    from Cons.prems x True have "k \<notin> fst ` set m" by simp
    then have "AList.delete k m = m" by simp
    with x True v show ?thesis by simp
  next
    case False
    with Cons.prems x have "map_of m k = Some v" "distinct (map fst m)" by simp_all
    from Cons.IH [OF this(2,1)] x False show ?thesis by simp
  qed
qed

lemma pending_delete:
  assumes "distinct (map fst m)" and "map_of m k = Some (r3, sim)" and "2 < length runs"
  shows "pending runs m = add_mset (2, r3) (pending runs (AList.delete k m))"
  using mset_delete [OF assms(1,2)] assms(3) by (simp add: pending_def)

lemma pair_step_refs:
  assumes "distinct (map fst m)"
  shows "distinct (map fst (snd (pair_step runs p (acc, m)))) \<and>
         refs_of (fst (pair_step runs p (acc, m))) + pending runs (snd (pair_step runs p (acc, m)))
           = refs_of acc + {#(0, run1Idx p), (1, run2Idx p)#} + pending runs m"
proof (cases "map_of m (run2Idx p)")
  case None
  then have "pair_step runs p (acc, m)
      = (acc @ [\<lparr> arg_anomalies = [(0, run1Idx p), (1, run2Idx p)], arg_runIndices = [0, 1],
                   arg_confidence = sim_total (similarity p),
                   arg_status = (if sim_total (similarity p) < CONFIDENCE_HIGH
                                    \<and> sim_total (similarity p) \<ge> CONFIDENCE_LOW then uncertain
                                 else matched),
                   arg_similarity = similarity p \<rparr>], m)"
    by (simp add: pair_step_def Let_def)
  with assms show ?thesis by (simp add: refs_of_append refs_of_def)
next
  case (Some v)
  obtain r3 sim where v: "v = (r3, sim)" by (cases v)
  show ?thesis
  proof (cases "2 < length runs")
    case True
    with Some v have "pair_step runs p (acc, m)
      = (acc @ [\<lparr> arg_anomalies = [(0, run1Idx p), (1, run2Idx p)] @ [(2, r3)],
                   arg_runIndices = [0, 1] @ [2],
                   arg_confidence = sim_total (similarity p),
                   arg_status = (if sim_total (similarity p) < CONFIDENCE_HIGH
                                    \<and> sim_total (similarity p) \<ge> CONFIDENCE_LOW then uncertain
                                 else matched),
                   arg_similarity = similarity p \<rparr>], AList.delete (run2Idx p) m)"
      by (simp add: pair_step_def Let_def)
    moreover have "pending runs m = add_mset (2, r3) (pending runs (AList.delete (run2Idx p) m))"
      using assms Some v True by (intro pending_delete) simp_all
    moreover have "distinct (map fst (AList.delete (run2Idx p) m))"
      using assms by (rule distinct_delete)
    ultimately show ?thesis by (simp add: refs_of_append refs_of_def)
  next
    case False
    with Some v have "pair_step runs p (acc, m)
      = (acc @ [\<lparr> arg_anomalies = [(0, run1Idx p), (1, run2Idx p)], arg_runIndices = [0, 1],
                   arg_confidence = sim_total (similarity p),
                   arg_status = (if sim_total (similarity p) < CONFIDENCE_HIGH
                                    \<and> sim_total (similarity p) \<ge> CONFIDENCE_LOW then uncertain
                                 else matched),
                   arg_similarity = similarity p \<rparr>], m)"
      by (simp add: pair_step_def Let_def)
    with assms show ?thesis by (simp add: refs_of_append refs_of_def)
  qed
qed

lemma pair_steps_refs:
  assumes "distinct (map fst m)"
  shows "distinct (map fst (snd (fold (pair_step runs) ps (acc, m)))) \<and>
         refs_of (fst (fold (pair_step runs) ps (acc, m)))
           + pending runs (snd (fold (pair_step runs) ps (acc, m)))
           = refs_of acc + image_mset (\<lambda>p. (0, run1Idx p)) (mset ps)
             + image_mset (\<lambda>p. (1, run2Idx p)) (mset ps) + pending runs m"
  using assms
proof (induction ps arbitrary: acc m)
  case Nil
  then show ?case by simp
next
  case (Cons p ps)
  obtain acc1 m1 where s: "pair_step runs p (acc, m) = (acc1, m1)" by (cases "pair_step runs p (acc, m)")
  from pair_step_refs [OF Cons.prems, of runs p acc] s
  have d: "distinct (map fst m1)"
    and e: "refs_of acc1 + pending runs m1
           = refs_of acc + {#(0, run1Idx p), (1, run2Idx p)#} + pending runs m" by simp_all
  from Cons.IH [OF d, of acc1] s e show ?case by (simp add: ac_simps)
qed

lemma new_step_refs:
  assumes "distinct (map fst m)"
  shows "distinct (map fst (snd (new_step runs j (acc, m)))) \<and>
         refs_of (fst (new_step runs j (acc, m))) + pending runs (snd (new_step runs j (acc, m)))
           = refs_of acc + {#(1, j)#} + pending runs m"
proof (cases "map_of m j")
  case None
  then have "new_step runs j (acc, m)
      = (acc @ [\<lparr> arg_anomalies = [(1, j)], arg_runIndices = [1], arg_confidence = 0,
                   arg_status = new, arg_similarity = no_similarity \<rparr>], m)"
    by (simp add: new_step_def Let_def)
  with assms show ?thesis by (simp add: refs_of_append refs_of_def)
next
  case (Some v)
  obtain r3 sim where v: "v = (r3, sim)" by (cases v)
  show ?thesis
  proof (cases "2 < length runs")
    case True
    with Some v have "new_step runs j (acc, m)
      = (acc @ [\<lparr> arg_anomalies = [(1, j)] @ [(2, r3)], arg_runIndices = [1] @ [2],
                   arg_confidence = 0, arg_status = new, arg_similarity = no_similarity \<rparr>],
         AList.delete j m)"
      by (simp add: new_step_def Let_def)
    moreover have "pending runs m = add_mset (2, r3) (pending runs (AList.delete j m))"
      using assms Some v True by (intro pending_delete) simp_all
    moreover have "distinct (map fst (AList.delete j m))"
      using assms by (rule distinct_delete)
    ultimately show ?thesis by (simp add: refs_of_append refs_of_def)
  next
    case False
    with Some v have "new_step runs j (acc, m)
      = (acc @ [\<lparr> arg_anomalies = [(1, j)], arg_runIndices = [1], arg_confidence = 0,
                   arg_status = new, arg_similarity = no_similarity \<rparr>], m)"
      by (simp add: new_step_def Let_def)
    with assms show ?thesis by (simp add: refs_of_append refs_of_def)
  qed
qed

lemma new_steps_refs:
  assumes "distinct (map fst m)"
  shows "distinct (map fst (snd (fold (new_step runs) js (acc, m)))) \<and>
         refs_of (fst (fold (new_step runs) js (acc, m)))
           + pending runs (snd (fold (new_step runs) js (acc, m)))
           = refs_of acc + image_mset (\<lambda>j. (1, j)) (mset js) + pending runs m"
  using assms
proof (induction js arbitrary: acc m)
  case Nil
  then show ?case by simp
next
  case (Cons j js)
  obtain acc1 m1 where s: "new_step runs j (acc, m) = (acc1, m1)" by (cases "new_step runs j (acc, m)")
  from new_step_refs [OF Cons.prems, of runs j acc] s
  have d: "distinct (map fst m1)"
    and e: "refs_of acc1 + pending runs m1 = refs_of acc + {#(1, j)#} + pending runs m" by simp_all
  from Cons.IH [OF d, of acc1] s e show ?case by (simp add: ac_simps)
qed

subsection \<open>What every chain satisfies\<close>

lemma pair_step_ok:
  assumes "\<forall>a \<in> set acc. args_ok a" and "sim_total (similarity p) \<ge> CONFIDENCE_LOW"
  shows "\<forall>a \<in> set (fst (pair_step runs p (acc, m))). args_ok a"
proof -
  define st where "st = (if sim_total (similarity p) < CONFIDENCE_HIGH
                                    \<and> sim_total (similarity p) \<ge> CONFIDENCE_LOW then uncertain
                                 else matched)"
  have ok: "args_ok \<lparr> arg_anomalies = an, arg_runIndices = map fst an,
                   arg_confidence = sim_total (similarity p), arg_status = st,
                   arg_similarity = similarity p \<rparr>"
    if "map fst an \<in> set [[0, 1], [0, 1, 2]]" for an
    using that assms(2) unfolding args_ok_def st_def CONFIDENCE_HIGH_def CONFIDENCE_LOW_def
    by auto
  have "\<exists>an m'. map fst an \<in> set [[0, 1], [0, 1, 2]] \<and>
     pair_step runs p (acc, m) = (acc @ [\<lparr> arg_anomalies = an, arg_runIndices = map fst an,
                   arg_confidence = sim_total (similarity p), arg_status = st,
                   arg_similarity = similarity p \<rparr>], m')"
  proof (cases "map_of m (run2Idx p)")
    case None
    then have "pair_step runs p (acc, m)
      = (acc @ [\<lparr> arg_anomalies = [(0, run1Idx p), (1, run2Idx p)],
                   arg_runIndices = map fst [(0::nat, run1Idx p), (1, run2Idx p)],
                   arg_confidence = sim_total (similarity p), arg_status = st,
                   arg_similarity = similarity p \<rparr>], m)"
      by (simp add: pair_step_def Let_def st_def)
    then show ?thesis by (intro exI [of _ "[(0, run1Idx p), (1, run2Idx p)]"] exI [of _ m]) simp
  next
    case (Some v)
    obtain r3 sim where v: "v = (r3, sim)" by (cases v)
    show ?thesis
    proof (cases "2 < length runs")
      case True
      with Some v have "pair_step runs p (acc, m)
        = (acc @ [\<lparr> arg_anomalies = [(0, run1Idx p), (1, run2Idx p), (2, r3)],
                   arg_runIndices = map fst [(0::nat, run1Idx p), (1, run2Idx p), (2, r3)],
                   arg_confidence = sim_total (similarity p), arg_status = st,
                   arg_similarity = similarity p \<rparr>], AList.delete (run2Idx p) m)"
        by (simp add: pair_step_def Let_def st_def)
      then show ?thesis
        by (intro exI [of _ "[(0, run1Idx p), (1, run2Idx p), (2, r3)]"]
            exI [of _ "AList.delete (run2Idx p) m"]) simp
    next
      case False
      with Some v have "pair_step runs p (acc, m)
        = (acc @ [\<lparr> arg_anomalies = [(0, run1Idx p), (1, run2Idx p)],
                   arg_runIndices = map fst [(0::nat, run1Idx p), (1, run2Idx p)],
                   arg_confidence = sim_total (similarity p), arg_status = st,
                   arg_similarity = similarity p \<rparr>], m)"
        by (simp add: pair_step_def Let_def st_def)
      then show ?thesis by (intro exI [of _ "[(0, run1Idx p), (1, run2Idx p)]"] exI [of _ m]) simp
    qed
  qed
  then obtain an m' where "map fst an \<in> set [[0, 1], [0, 1, 2]]"
    and "pair_step runs p (acc, m) = (acc @ [\<lparr> arg_anomalies = an, arg_runIndices = map fst an,
                   arg_confidence = sim_total (similarity p), arg_status = st,
                   arg_similarity = similarity p \<rparr>], m')" by blast
  with ok [of an] assms(1) show ?thesis by simp
qed

lemma pair_steps_ok:
  assumes "\<forall>a \<in> set acc. args_ok a"
    and "\<forall>p \<in> set ps. sim_total (similarity p) \<ge> CONFIDENCE_LOW"
  shows "\<forall>a \<in> set (fst (fold (pair_step runs) ps (acc, m))). args_ok a"
  using assms
proof (induction ps arbitrary: acc m)
  case Nil
  then show ?case by simp
next
  case (Cons p ps)
  obtain acc1 m1 where s: "pair_step runs p (acc, m) = (acc1, m1)" by (cases "pair_step runs p (acc, m)")
  from Cons.prems have "\<forall>a \<in> set (fst (pair_step runs p (acc, m))). args_ok a"
    by (intro pair_step_ok) simp_all
  with s have "\<forall>a \<in> set acc1. args_ok a" by simp
  from Cons.IH [OF this, of m1] Cons.prems(2) s show ?case by simp
qed

lemma single_args_ok:
  assumes "r \<in> {0, 1, 2}" and "s = new \<or> s = missing"
  shows "args_ok (single_args (r, k) s)"
  using assms unfolding args_ok_def single_args_def by auto

lemma new_step_ok:
  assumes "\<forall>a \<in> set acc. args_ok a"
  shows "\<forall>a \<in> set (fst (new_step runs j (acc, m))). args_ok a"
proof -
  have ok: "args_ok \<lparr> arg_anomalies = an, arg_runIndices = map fst an,
                   arg_confidence = 0, arg_status = new, arg_similarity = no_similarity \<rparr>"
    if "map fst an \<in> set [[1], [1, 2]]" for an
    using that unfolding args_ok_def by auto
  have "\<exists>an m'. map fst an \<in> set [[1], [1, 2]] \<and>
     new_step runs j (acc, m) = (acc @ [\<lparr> arg_anomalies = an, arg_runIndices = map fst an,
                   arg_confidence = 0, arg_status = new, arg_similarity = no_similarity \<rparr>], m')"
  proof (cases "map_of m j")
    case None
    then have "new_step runs j (acc, m)
      = (acc @ [\<lparr> arg_anomalies = [(1, j)], arg_runIndices = map fst [(1::nat, j)],
                   arg_confidence = 0, arg_status = new, arg_similarity = no_similarity \<rparr>], m)"
      by (simp add: new_step_def Let_def)
    then show ?thesis by (intro exI [of _ "[(1, j)]"] exI [of _ m]) simp
  next
    case (Some v)
    obtain r3 sim where v: "v = (r3, sim)" by (cases v)
    show ?thesis
    proof (cases "2 < length runs")
      case True
      with Some v have "new_step runs j (acc, m)
        = (acc @ [\<lparr> arg_anomalies = [(1, j), (2, r3)], arg_runIndices = map fst [(1::nat, j), (2, r3)],
                   arg_confidence = 0, arg_status = new, arg_similarity = no_similarity \<rparr>],
           AList.delete j m)"
        by (simp add: new_step_def Let_def)
      then show ?thesis by (intro exI [of _ "[(1, j), (2, r3)]"] exI [of _ "AList.delete j m"]) simp
    next
      case False
      with Some v have "new_step runs j (acc, m)
        = (acc @ [\<lparr> arg_anomalies = [(1, j)], arg_runIndices = map fst [(1::nat, j)],
                   arg_confidence = 0, arg_status = new, arg_similarity = no_similarity \<rparr>], m)"
        by (simp add: new_step_def Let_def)
      then show ?thesis by (intro exI [of _ "[(1, j)]"] exI [of _ m]) simp
    qed
  qed
  then obtain an m' where "map fst an \<in> set [[1], [1, 2]]"
    and "new_step runs j (acc, m) = (acc @ [\<lparr> arg_anomalies = an, arg_runIndices = map fst an,
                   arg_confidence = 0, arg_status = new, arg_similarity = no_similarity \<rparr>], m')"
    by blast
  with ok [of an] assms show ?thesis by simp
qed

lemma new_steps_ok:
  assumes "\<forall>a \<in> set acc. args_ok a"
  shows "\<forall>a \<in> set (fst (fold (new_step runs) js (acc, m))). args_ok a"
  using assms
proof (induction js arbitrary: acc m)
  case Nil
  then show ?case by simp
next
  case (Cons j js)
  obtain acc1 m1 where s: "new_step runs j (acc, m) = (acc1, m1)" by (cases "new_step runs j (acc, m)")
  from Cons.prems have "\<forall>a \<in> set (fst (new_step runs j (acc, m))). args_ok a"
    by (rule new_step_ok)
  with s have "\<forall>a \<in> set acc1. args_ok a" by simp
  from Cons.IH [OF this, of m1] s show ?case by simp
qed

lemma update_fresh: "k \<notin> fst ` set m \<Longrightarrow> AList.update k v m = m @ [(k, v)]"
  by (induction m) auto

lemma fold_update_distinct:
  assumes "distinct (map kf ps)" and "set (map kf ps) \<inter> fst ` set m = {}"
  shows "fold (\<lambda>p. AList.update (kf p) (vf p)) ps m = m @ map (\<lambda>p. (kf p, vf p)) ps"
  using assms
proof (induction ps arbitrary: m)
  case Nil
  then show ?case by simp
next
  case (Cons p ps)
  from Cons.prems have fresh: "kf p \<notin> fst ` set m" by auto
  then have u: "AList.update (kf p) (vf p) m = m @ [(kf p, vf p)]" by (rule update_fresh)
  from Cons.prems have "distinct (map kf ps)"
    and "set (map kf ps) \<inter> fst ` set (m @ [(kf p, vf p)]) = {}" by auto
  from Cons.IH [OF this] u show ?case by simp
qed

lemma distinct_of_mset_sum:
  assumes "mset xs + mset ys = mset zs" and "distinct zs"
  shows "distinct xs"
proof -
  from assms(1) have "mset (xs @ ys) = mset zs" by simp
  then have "distinct (xs @ ys) = distinct zs" by (rule mset_eq_imp_distinct_iff)
  with assms(2) show ?thesis by simp
qed

lemma refs_of_singles:
  "refs_of (map (\<lambda>x. single_args (f x) s) xs) = image_mset f (mset xs)"
  by (induction xs) (simp_all add: refs_of_def single_args_def)

lemma concat_singles:
  "concat (map (\<lambda>x. if c then [g x] else []) xs) = (if c then map g xs else [])"
  by (induction xs) simp_all

lemma match_args_unfold:
  "match_args runs =
     fst (after_loops runs) @
     map (\<lambda>i. single_args (0, i) missing) (missingAnomalies (matchAnomalies (runs ! 0) (runs ! 1))) @
     (if length runs \<ge> 3
      then map (\<lambda>kv. single_args (2, fst (snd kv)) new) (snd (after_loops runs)) @
           map (\<lambda>k. single_args (2, k) new) (newAnomalies (matchAnomalies (runs ! 1) (runs ! 2)))
      else [])"
proof (cases "length runs \<ge> 3")
  case True
  then have three: "2 < length runs" by simp
  show ?thesis
    unfolding match_args_def Let_def after_loops_def initial_map_def
    using True three by (simp add: split_def concat_singles)
next
  case False
  then have "\<not> 2 < length runs" by simp
  with False show ?thesis
    unfolding match_args_def Let_def after_loops_def initial_map_def
    by (simp add: split_def)
qed

lemma initial_map_props:
  "distinct (map fst (initial_map runs))"
  "pending runs (initial_map runs)
     = (if length runs \<ge> 3
        then image_mset (\<lambda>p. (2, run2Idx p)) (mset (pairs (matchAnomalies (runs ! 1) (runs ! 2))))
        else {#})"
proof -
  let ?ps = "pairs (matchAnomalies (runs ! 1) (runs ! 2))"
  have "distinct (map run1Idx ?ps)"
    using matchAnomalies_partition(1) [of "runs ! 1" "runs ! 2"] non_reference_distinct
    by (rule distinct_of_mset_sum)
  then have f: "fold (\<lambda>pair. AList.update (run1Idx pair) (run2Idx pair, similarity pair)) ?ps []
        = map (\<lambda>p. (run1Idx p, (run2Idx p, similarity p))) ?ps"
    using fold_update_distinct [of run1Idx ?ps "[]" "\<lambda>p. (run2Idx p, similarity p)"] by simp
  show "distinct (map fst (initial_map runs))"
    unfolding initial_map_def using f \<open>distinct (map run1Idx ?ps)\<close> by (simp add: comp_def)
  show "pending runs (initial_map runs)
     = (if length runs \<ge> 3 then image_mset (\<lambda>p. (2, run2Idx p)) (mset ?ps) else {#})"
    unfolding initial_map_def pending_def using f by (auto simp: multiset.map_comp comp_def)
qed

lemma after_loops_refs:
  "refs_of (fst (after_loops runs)) + pending runs (snd (after_loops runs))
     = image_mset (\<lambda>p. (0, run1Idx p)) (mset (pairs (matchAnomalies (runs ! 0) (runs ! 1))))
       + image_mset (\<lambda>p. (1, run2Idx p)) (mset (pairs (matchAnomalies (runs ! 0) (runs ! 1))))
       + image_mset (\<lambda>j. (1, j)) (mset (newAnomalies (matchAnomalies (runs ! 0) (runs ! 1))))
       + pending runs (initial_map runs)"
proof -
  let ?m12 = "matchAnomalies (runs ! 0) (runs ! 1)"
  obtain acc1 m1 where s1: "fold (pair_step runs) (pairs ?m12) ([], initial_map runs) = (acc1, m1)"
    by (cases "fold (pair_step runs) (pairs ?m12) ([], initial_map runs)")
  from pair_steps_refs [OF initial_map_props(1) [of runs], where ps = "pairs ?m12" and acc = "[]" and runs = runs] s1
  have d1: "distinct (map fst m1)"
    and e1: "refs_of acc1 + pending runs m1
         = image_mset (\<lambda>p. (0, run1Idx p)) (mset (pairs ?m12))
           + image_mset (\<lambda>p. (1, run2Idx p)) (mset (pairs ?m12)) + pending runs (initial_map runs)"
    by (simp_all add: refs_of_Nil)
  from new_steps_refs [OF d1, where js = "newAnomalies ?m12" and acc = acc1 and runs = runs]
  have "refs_of (fst (fold (new_step runs) (newAnomalies ?m12) (acc1, m1)))
           + pending runs (snd (fold (new_step runs) (newAnomalies ?m12) (acc1, m1)))
           = refs_of acc1 + image_mset (\<lambda>j. (1, j)) (mset (newAnomalies ?m12)) + pending runs m1"
    by simp
  with e1 s1 show ?thesis unfolding after_loops_def by (simp add: ac_simps)
qed

lemma after_loops_ok: "\<forall>a \<in> set (fst (after_loops runs)). args_ok a"
proof -
  let ?m12 = "matchAnomalies (runs ! 0) (runs ! 1)"
  obtain acc1 m1 where s1: "fold (pair_step runs) (pairs ?m12) ([], initial_map runs) = (acc1, m1)"
    by (cases "fold (pair_step runs) (pairs ?m12) ([], initial_map runs)")
  have "\<forall>a \<in> set (fst (fold (pair_step runs) (pairs ?m12) ([], initial_map runs))). args_ok a"
    using matchAnomalies_partition(3) [of "runs ! 0" "runs ! 1"]
    by (intro pair_steps_ok) simp_all
  with s1 have "\<forall>a \<in> set acc1. args_ok a" by simp
  from new_steps_ok [OF this, where js = "newAnomalies ?m12" and m = m1 and runs = runs] s1 show ?thesis
    unfolding after_loops_def by simp
qed

lemma match_args_ok: "\<forall>a \<in> set (match_args runs). args_ok a"
proof -
  have s0: "args_ok (single_args (0, i) missing)" for i by (rule single_args_ok) simp_all
  have s2: "args_ok (single_args (2, i) new)" for i by (rule single_args_ok) simp_all
  show ?thesis
    unfolding match_args_unfold using after_loops_ok [of runs] s0 s2 by auto
qed

text \<open>The anomalies of all chains: the non-reference anomalies of the first three runs.\<close>

lemma match_args_refs:
  "refs_of (match_args runs)
     = image_mset (Pair 0) (mset (non_reference (runs ! 0)))
       + image_mset (Pair 1) (mset (non_reference (runs ! 1)))
       + (if length runs \<ge> 3 then image_mset (Pair 2) (mset (non_reference (runs ! 2))) else {#})"
proof -
  let ?m12 = "matchAnomalies (runs ! 0) (runs ! 1)"
  let ?m23 = "matchAnomalies (runs ! 1) (runs ! 2)"
  have r0: "image_mset (Pair 0) (mset (non_reference (runs ! 0)))
        = image_mset (\<lambda>p. (0, run1Idx p)) (mset (pairs ?m12))
          + image_mset (Pair 0) (mset (missingAnomalies ?m12))"
    using arg_cong [OF matchAnomalies_partition(1) [of "runs ! 0" "runs ! 1", symmetric], of "image_mset (Pair 0)"]
    by (simp add: multiset.map_comp comp_def)
  have r1: "image_mset (Pair 1) (mset (non_reference (runs ! 1)))
        = image_mset (\<lambda>p. (1, run2Idx p)) (mset (pairs ?m12))
          + image_mset (Pair 1) (mset (newAnomalies ?m12))"
    using arg_cong [OF matchAnomalies_partition(2) [of "runs ! 0" "runs ! 1", symmetric], of "image_mset (Pair 1)"]
    by (simp add: multiset.map_comp comp_def)
  have r2: "image_mset (Pair 2) (mset (non_reference (runs ! 2)))
        = image_mset (\<lambda>p. (2, run2Idx p)) (mset (pairs ?m23))
          + image_mset (Pair 2) (mset (newAnomalies ?m23))"
    using arg_cong [OF matchAnomalies_partition(2) [of "runs ! 1" "runs ! 2", symmetric], of "image_mset (Pair 2)"]
    by (simp add: multiset.map_comp comp_def)
  note al = after_loops_refs [of runs]
  show ?thesis
  proof (cases "length runs \<ge> 3")
    case True
    then have three: "2 < length runs" by simp
    have p: "pending runs (snd (after_loops runs))
          = refs_of (map (\<lambda>kv. single_args (2, fst (snd kv)) new) (snd (after_loops runs)))"
      unfolding pending_def using three by (simp add: refs_of_singles)
    have "refs_of (match_args runs)
        = (refs_of (fst (after_loops runs)) + pending runs (snd (after_loops runs)))
          + image_mset (Pair 0) (mset (missingAnomalies ?m12))
          + image_mset (Pair 2) (mset (newAnomalies ?m23))"
      unfolding match_args_unfold p using True
      by (simp add: refs_of_append refs_of_singles)
    also have "\<dots> = image_mset (Pair 0) (mset (non_reference (runs ! 0)))
       + image_mset (Pair 1) (mset (non_reference (runs ! 1)))
       + image_mset (Pair 2) (mset (non_reference (runs ! 2)))"
      unfolding al initial_map_props(2) r0 r1 r2 using True by (simp add: ac_simps)
    finally show ?thesis using True by simp
  next
    case False
    then have two: "\<not> 2 < length runs" by simp
    have p: "pending runs m = {#}" for m unfolding pending_def using two by simp
    have "refs_of (match_args runs)
        = (refs_of (fst (after_loops runs)) + pending runs (snd (after_loops runs)))
          + image_mset (Pair 0) (mset (missingAnomalies ?m12))"
      unfolding match_args_unfold using False
      by (simp add: refs_of_append refs_of_singles p)
    also have "\<dots> = image_mset (Pair 0) (mset (non_reference (runs ! 0)))
       + image_mset (Pair 1) (mset (non_reference (runs ! 1)))"
      unfolding al r0 r1 by (simp add: p ac_simps)
    finally show ?thesis using False by simp
  qed
qed

subsection \<open>The matcher never throws\<close>

lemma those_map_Some:
  assumes "\<forall>x \<in> set xs. f x \<noteq> None"
  shows "those (map f xs) = Some (map (\<lambda>x. the (f x)) xs)"
  using assms by (induction xs) auto

lemma buildMatchObject_total:
  assumes "arg_anomalies a \<noteq> []" and "\<forall>ref \<in> set (arg_anomalies a). deref runs ref \<noteq> None"
  shows "\<exists>c. buildMatchObject n a runs years = Some c \<and> built_from a c"
proof -
  define objs where "objs = map (\<lambda>x. the (deref runs x)) (arg_anomalies a)"
  have t: "those (map (deref runs) (arg_anomalies a)) = Some objs"
    unfolding objs_def using assms(2) by (rule those_map_Some)
  from assms(1) have "objs \<noteq> []" by (simp add: objs_def)
  then obtain o1 rest where o: "objs = o1 # rest" by (cases objs) auto
  define g where "g = calculateGrowthRates objs (arg_runIndices a) years"
  have "classifyPriority objs g (arg_status a) \<noteq> None"
    unfolding classifyPriority_def o Let_def by (simp split: if_splits)
  then obtain p where p: "classifyPriority objs g (arg_status a) = Some p" by blast
  have "buildMatchObject n a runs years
      = Some \<lparr> match_id = n, anomalies = arg_anomalies a, run_indices = arg_runIndices a,
               confidence = arg_confidence a, match_status = arg_status a,
               similarity_breakdown = arg_similarity a, growth = g, classification = p \<rparr>"
    unfolding buildMatchObject_def t using p by (simp add: g_def Let_def)
  then show ?thesis by (simp add: built_from_def)
qed

lemma match_args_refs_mem:
  assumes "2 \<le> length runs" and "a \<in> set (match_args runs)" and "ref \<in> set (arg_anomalies a)"
  shows "fst ref < min (length runs) 3 \<and> snd ref \<in> set (non_reference (runs ! fst ref))"
proof -
  from assms(2,3) have "ref \<in># refs_of (match_args runs)" unfolding refs_of_def by auto
  then show ?thesis unfolding match_args_refs using assms(1) by (auto split: if_splits)
qed

lemma match_args_deref:
  assumes "2 \<le> length runs" and "a \<in> set (match_args runs)" and "ref \<in> set (arg_anomalies a)"
  shows "deref runs ref \<noteq> None"
proof -
  from match_args_refs_mem [OF assms] have "fst ref < length runs"
    and "snd ref < length (runs ! fst ref)" by (simp_all add: non_reference_mem)
  then show ?thesis by (cases ref) (simp add: deref_def)
qed

lemma list_all2_those:
  assumes "\<forall>x \<in> set xs. \<exists>c. f x = Some c \<and> R (g x) c"
  shows "\<exists>cs. those (map f xs) = Some cs \<and> list_all2 R (map g xs) cs"
  using assms
proof (induction xs)
  case Nil
  then show ?case by simp
next
  case (Cons x xs)
  then obtain c cs where "f x = Some c" "R (g x) c" "those (map f xs) = Some cs"
    "list_all2 R (map g xs) cs" by auto
  then show ?case by simp
qed

lemma matchAcrossRuns_chains:
  assumes "2 \<le> length runs"
  shows "\<exists>chains. matchAcrossRuns runs years = Some chains
           \<and> list_all2 built_from (match_args runs) chains"
proof -
  let ?en = "enumerate 0 (match_args runs)"
  have "\<forall>x \<in> set ?en. \<exists>c. (\<lambda>(n, args). buildMatchObject n args runs years) x = Some c
          \<and> built_from (snd x) c"
  proof
    fix x assume x: "x \<in> set ?en"
    obtain n a where xe: "x = (n, a)" by (cases x)
    from x xe have a: "a \<in> set (match_args runs)" by (auto simp: in_set_enumerate_eq)
    have "args_ok a" using match_args_ok a by blast
    then have "arg_anomalies a \<noteq> []" unfolding args_ok_def by auto
    moreover have "\<forall>ref \<in> set (arg_anomalies a). deref runs ref \<noteq> None"
      using match_args_deref [OF assms a] by blast
    ultimately have "\<exists>c. buildMatchObject n a runs years = Some c \<and> built_from a c"
      by (rule buildMatchObject_total)
    with xe show "\<exists>c. (\<lambda>(n, args). buildMatchObject n args runs years) x = Some c
          \<and> built_from (snd x) c" by simp
  qed
  from list_all2_those [where f = "\<lambda>(n, args). buildMatchObject n args runs years"
      and g = snd and R = built_from and xs = ?en, OF this]
  obtain cs where "those (map (\<lambda>(n, args). buildMatchObject n args runs years) ?en) = Some cs"
    and "list_all2 built_from (map snd ?en) cs" by blast
  moreover have "map snd ?en = match_args runs" by simp
  ultimately show ?thesis using assms by (simp add: matchAcrossRuns_def)
qed

lemma built_from_anomalies:
  assumes "list_all2 built_from as cs"
  shows "map anomalies cs = map arg_anomalies as"
  using assms by (induction rule: list_all2_induct) (simp_all add: built_from_def)

lemma built_from_mem:
  assumes "list_all2 built_from as cs" and "c \<in> set cs"
  shows "\<exists>a \<in> set as. built_from a c"
  using assms by (induction rule: list_all2_induct) auto

lemma count_Pair_image:
  "count (image_mset (Pair a) M) (r, k) = (if r = a then count M k else 0)"
  by (induction M) auto

lemma count_non_reference:
  "count (mset (non_reference run)) k
     = (if k < length run \<and> \<not> is_reference_point (run ! k) then 1 else 0)"
  using non_reference_distinct [of run] non_reference_mem [of k run]
  by (simp add: distinct_count_atmost_1)

text \<open>How often the chains hold the anomaly at row \<open>k\<close> of run \<open>r\<close>.\<close>

lemma chains_count:
  assumes "2 \<le> length runs" and "list_all2 built_from (match_args runs) cs"
  shows "count_list (concat (map anomalies cs)) (r, k)
         = (if r < min (length runs) 3 \<and> k < length (runs ! r)
               \<and> \<not> is_reference_point (runs ! r ! k) then 1 else 0)"
proof -
  have "count_list (concat (map anomalies cs)) (r, k)
        = count (refs_of (match_args runs)) (r, k)"
    unfolding refs_of_def built_from_anomalies [OF assms(2)] by (simp add: count_mset)
  also have "\<dots> = (if r < min (length runs) 3 \<and> k < length (runs ! r)
               \<and> \<not> is_reference_point (runs ! r ! k) then 1 else 0)"
    unfolding match_args_refs using assms(1)
    by (auto simp: count_Pair_image count_non_reference)
  finally show ?thesis .
qed

subsection \<open>The matcher on the example runs\<close>

lemma ex_similarity: "calculateSimilarity (ex_defect d) (ex_defect d) = full_similarity"
  by (simp add: calculateSimilarity_def distanceSimilarity_def dimensionalSimilarity_def
      clockSimilarity_def featureTypeSimilarity_def ex_defect_def full_similarity_def Let_def
      WEIGHTS_distance_def WEIGHTS_dimensional_def WEIGHTS_clock_def WEIGHTS_feature_type_def)

lemma hungarian_single: "hungarianAlgorithm [[0]] = [Some 0]"
  by (simp add: hungarianAlgorithm_def Let_def list_min_def assign_row_def best_column_def
      upt_rec numeral_3_eq_3)


lemma matchAcrossRuns_fields:
  assumes "2 \<le> length runs"
  shows "map_option (map anomalies) (matchAcrossRuns runs years)
           = Some (map arg_anomalies (match_args runs))"
    and "map_option (map run_indices) (matchAcrossRuns runs years)
           = Some (map arg_runIndices (match_args runs))"
    and "map_option (map match_status) (matchAcrossRuns runs years)
           = Some (map arg_status (match_args runs))"
    and "map_option (map confidence) (matchAcrossRuns runs years)
           = Some (map arg_confidence (match_args runs))"
proof -
  from matchAcrossRuns_chains [OF assms, of years] obtain cs
    where cs: "matchAcrossRuns runs years = Some cs"
      and b: "list_all2 built_from (match_args runs) cs" by blast
  from b have "map anomalies cs = map arg_anomalies (match_args runs)"
    and "map run_indices cs = map arg_runIndices (match_args runs)"
    and "map match_status cs = map arg_status (match_args runs)"
    and "map confidence cs = map arg_confidence (match_args runs)"
    by (induction rule: list_all2_induct) (simp_all add: built_from_def)
  with cs show "map_option (map anomalies) (matchAcrossRuns runs years)
           = Some (map arg_anomalies (match_args runs))"
    and "map_option (map run_indices) (matchAcrossRuns runs years)
           = Some (map arg_runIndices (match_args runs))"
    and "map_option (map match_status) (matchAcrossRuns runs years)
           = Some (map arg_status (match_args runs))"
    and "map_option (map confidence) (matchAcrossRuns runs years)
           = Some (map arg_confidence (match_args runs))"
    by simp_all
qed

lemma ex_match_welds:
  "matchAnomalies [ex_weld 0, ex_defect d] [ex_weld 0, ex_defect d]
     = \<lparr> pairs = [\<lparr> run1Idx = 1, run2Idx = 1, similarity = full_similarity \<rparr>],
         newAnomalies = [], missingAnomalies = [] \<rparr>"
proof -
  have nr: "non_reference [ex_weld 0, ex_defect d] = [1]"
    by (simp add: non_reference_def ex_defect_def ex_weld_def upt_rec)
  have c: "candidates_of [ex_weld 0, ex_defect d] [ex_weld 0, ex_defect d] [1] [1]
      = [\<lparr> cand_row = 0, cand_col = 0, cand_score = 1, cand_breakdown = full_similarity \<rparr>]"
    by (simp add: candidates_of_def ex_similarity Let_def DISTANCE_FILTER_def)
       (simp add: full_similarity_def)
  let ?cand = "\<lparr> cand_row = 0, cand_col = 0, cand_score = 1, cand_breakdown = full_similarity \<rparr>"
  have m: "buildCostMatrix (map (\<lambda>c. (cand_row c, cand_col c, cand_score c)) [?cand])
             (length [1::nat]) (length [1::nat]) = [[0]]"
    by (simp add: buildCostMatrix_def)
  have acc: "accepted_of [Some 0] [?cand] (length [1::nat]) = [(0, 0, ?cand)]"
    by (simp add: accepted_of_def CONFIDENCE_LOW_def)
  show ?thesis
    unfolding matchAnomalies_def Let_def nr c m hungarian_single acc
    by simp
qed

lemma ex_two_runs_args:
  "match_args ex_two_runs
     = [\<lparr> arg_anomalies = [(0, 1), (1, 1)], arg_runIndices = [0, 1], arg_confidence = 1,
          arg_status = matched, arg_similarity = full_similarity \<rparr>]"
  unfolding match_args_def ex_two_runs_def
  by (simp add: ex_match_welds Let_def pair_step_def full_similarity_def
      CONFIDENCE_HIGH_def CONFIDENCE_LOW_def)


subsection \<open>Partition, status and span of the chains\<close>

text \<open>
  Claim C1, as the code has it. For every input of at least two runs the matcher returns
  chains, and these partition the non-reference anomalies of the first three runs: the
  anomaly at row \<open>k\<close> of run \<open>r\<close> occurs exactly once in all chains together when
  \<open>r < min K 3\<close> and it is not a reference point, and it occurs in no chain when it is a
  reference point or \<open>r \<ge> 3\<close>.
\<close>

theorem chains_partition_non_reference:
  assumes "2 \<le> length runs"
  shows "\<exists>chains. matchAcrossRuns runs years = Some chains \<and>
           (\<forall>r k. count_list (concat (map anomalies chains)) (r, k)
                    = (if r < min (length runs) 3 \<and> k < length (runs ! r)
                          \<and> \<not> is_reference_point (runs ! r ! k) then 1 else 0))"
proof -
  from matchAcrossRuns_chains [OF assms, of years] obtain cs
    where cs: "matchAcrossRuns runs years = Some cs"
      and b: "list_all2 built_from (match_args runs) cs" by blast
  from chains_count [OF assms b] cs show ?thesis by blast
qed

theorem chains_partition_non_reference_witness:
  "2 \<le> length ex_four_runs \<and>
   (\<exists>chains. matchAcrossRuns ex_four_runs [2010, 2015, 2020, 2025] = Some chains \<and>
      count_list (concat (map anomalies chains)) (0, 0) = 1 \<and>
      count_list (concat (map anomalies chains)) (1, 0) = 1 \<and>
      count_list (concat (map anomalies chains)) (2, 0) = 1 \<and>
      count_list (concat (map anomalies chains)) (3, 0) = 0)"
proof -
  have l: "2 \<le> length ex_four_runs" by (simp add: ex_four_runs_def)
  from chains_partition_non_reference [OF l, of "[2010, 2015, 2020, 2025]"]
  obtain cs where cs: "matchAcrossRuns ex_four_runs [2010, 2015, 2020, 2025] = Some cs"
    and c: "\<And>r k. count_list (concat (map anomalies cs)) (r, k)
                    = (if r < min (length ex_four_runs) 3 \<and> k < length (ex_four_runs ! r)
                          \<and> \<not> is_reference_point (ex_four_runs ! r ! k) then 1 else 0)"
    by blast
  have "count_list (concat (map anomalies cs)) (0, 0) = 1"
    "count_list (concat (map anomalies cs)) (1, 0) = 1"
    "count_list (concat (map anomalies cs)) (2, 0) = 1"
    "count_list (concat (map anomalies cs)) (3, 0) = 0"
    unfolding c by (simp_all add: ex_four_runs_def ex_defect_def)
  with l cs show ?thesis by blast
qed

text \<open>
  Claim C1 as stated fails for reference points: with two runs that each hold a girth
  weld (row 0) and the same metal-loss anomaly (row 1), the only chain is made of the two
  rows 1, and the girth weld at row 0 of run 0 is in no chain.
\<close>

theorem reference_point_in_no_chain_counterexample:
  "map_option (map anomalies) (matchAcrossRuns ex_two_runs [2015, 2020]) = Some [[(0, 1), (1, 1)]] \<and>
   is_reference_point (ex_two_runs ! 0 ! 0) \<and>
   count_list (concat [[(0, 1), (1, 1)]]) (0 :: nat, 0 :: nat) = 0"
proof -
  have "2 \<le> length ex_two_runs" by (simp add: ex_two_runs_def)
  from matchAcrossRuns_fields(1) [OF this, of "[2015, 2020]"]
  show ?thesis by (simp add: ex_two_runs_args) (simp add: ex_two_runs_def ex_weld_def)
qed

text \<open>
  Claim C3. The matcher returns chains for every input, and every chain satisfies: status
  matched implies confidence at least 0.70; status uncertain implies confidence at least
  0.40 and below 0.70; status new or missing implies confidence 0.
\<close>

theorem chain_status_confidence:
  "\<exists>chains. matchAcrossRuns runs years = Some chains \<and>
     (\<forall>c \<in> set chains.
        (match_status c = matched \<longrightarrow> confidence c \<ge> 0.70) \<and>
        (match_status c = uncertain \<longrightarrow> 0.40 \<le> confidence c \<and> confidence c < 0.70) \<and>
        (match_status c = new \<or> match_status c = missing \<longrightarrow> confidence c = 0))"
proof (cases "2 \<le> length runs")
  case False
  then show ?thesis by (simp add: matchAcrossRuns_def)
next
  case True
  from matchAcrossRuns_chains [OF True, of years] obtain cs
    where cs: "matchAcrossRuns runs years = Some cs"
      and b: "list_all2 built_from (match_args runs) cs" by blast
  have "\<forall>c \<in> set cs.
        (match_status c = matched \<longrightarrow> confidence c \<ge> 0.70) \<and>
        (match_status c = uncertain \<longrightarrow> 0.40 \<le> confidence c \<and> confidence c < 0.70) \<and>
        (match_status c = new \<or> match_status c = missing \<longrightarrow> confidence c = 0)"
  proof
    fix c assume "c \<in> set cs"
    from built_from_mem [OF b this] obtain a where a: "a \<in> set (match_args runs)"
      and bf: "built_from a c" by blast
    from match_args_ok a have "args_ok a" by blast
    with bf show "(match_status c = matched \<longrightarrow> confidence c \<ge> 0.70) \<and>
        (match_status c = uncertain \<longrightarrow> 0.40 \<le> confidence c \<and> confidence c < 0.70) \<and>
        (match_status c = new \<or> match_status c = missing \<longrightarrow> confidence c = 0)"
      unfolding args_ok_def built_from_def by simp
  qed
  with cs show ?thesis by blast
qed

theorem chain_status_confidence_witness:
  "map_option (map match_status) (matchAcrossRuns ex_two_runs [2015, 2020]) = Some [matched] \<and>
   (\<exists>chains. matchAcrossRuns ex_two_runs [2015, 2020] = Some chains \<and>
      list_all (\<lambda>c. match_status c = matched \<and> confidence c \<ge> 0.70) chains)"
proof -
  have l: "2 \<le> length ex_two_runs" by (simp add: ex_two_runs_def)
  have s: "map_option (map match_status) (matchAcrossRuns ex_two_runs [2015, 2020]) = Some [matched]"
    using matchAcrossRuns_fields(3) [OF l, of "[2015, 2020]"] by (simp add: ex_two_runs_args)
  from chain_status_confidence [of ex_two_runs "[2015, 2020]"]
  obtain cs where cs: "matchAcrossRuns ex_two_runs [2015, 2020] = Some cs"
    and inv: "\<forall>c \<in> set cs. (match_status c = matched \<longrightarrow> confidence c \<ge> 0.70)" by blast
  from s cs have "map match_status cs = [matched]" by simp
  then have "\<forall>c \<in> set cs. match_status c = matched" by (cases cs) auto
  with inv have "list_all (\<lambda>c. match_status c = matched \<and> confidence c \<ge> 0.70) cs"
    by (simp add: list_all_iff)
  with s cs show ?thesis by blast
qed




end
